theory Spec2Isabelle
  imports Main "HOL-Library.Word"
begin

unbundle bit_operations_syntax

section \<open>Wire format: the fixed-size message header\<close>

text \<open>
  The connection engine of frisbee (file \<^verbatim>\<open>conn.go\<close>, package \<^verbatim>\<open>frisbee\<close>) encodes every
  message as a fixed-size header followed by the content. The offsets and sizes of the
  header fields are constants of the package \<^verbatim>\<open>internal/protocol\<close>. They are parameters of
  this development, collected in the record \<open>protocol\<close>; the predicate
  \<open>valid_protocol\<close> says what the code relies on.
\<close>

type_synonym byte = "8 word"

text \<open>The Go type \<^verbatim>\<open>frisbee.Message\<close> (\<^verbatim>\<open>protocol.Message\<close>).\<close>

record Message =
  From :: "32 word"
  To :: "32 word"
  Id' :: "64 word"
  Operation :: "32 word"
  ContentLength :: "64 word"

record protocol =
  ReservedBytes :: "byte list"
  ReservedOffset :: nat
  ReservedSize :: nat
  FromOffset :: nat
  FromSize :: nat
  ToOffset :: nat
  ToSize :: nat
  IdOffset :: nat
  IdSize :: nat
  OperationOffset :: nat
  OperationSize :: nat
  ContentLengthOffset :: nat
  ContentLengthSize :: nat
  MessageSize :: nat

text \<open>The reserved operation codes of package \<^verbatim>\<open>frisbee\<close>, parameters as well.\<close>

record opcodes =
  HEARTBEAT :: "32 word"
  STREAM :: "32 word"
  STREAMCLOSE :: "32 word"

subsection \<open>Go slices and the big-endian byte order\<close>

text \<open>\<open>slice xs lo hi\<close> is the Go expression \<^verbatim>\<open>xs[lo:hi]\<close>.\<close>

definition slice :: "'a list \<Rightarrow> nat \<Rightarrow> nat \<Rightarrow> 'a list" where
  "slice xs lo hi = take (hi - lo) (drop lo xs)"

text \<open>
  \<open>copy_go dst src\<close> is the content of \<^verbatim>\<open>dst\<close> after \<^verbatim>\<open>copy(dst, src)\<close>: the first
  \<open>min (len dst) (len src)\<close> elements are overwritten.
\<close>

definition copy_go :: "'a list \<Rightarrow> 'a list \<Rightarrow> 'a list" where
  "copy_go dst src = take (min (length dst) (length src)) src @ drop (length src) dst"

text \<open>
  A call \<^verbatim>\<open>f(xs[lo:hi], ...)\<close> that writes through the sub-slice changes the array
  \<^verbatim>\<open>xs\<close> in that window only.
\<close>

definition with_slice :: "('a list \<Rightarrow> 'a list) \<Rightarrow> 'a list \<Rightarrow> nat \<Rightarrow> nat \<Rightarrow> 'a list" where
  "with_slice f xs lo hi = take lo xs @ f (slice xs lo hi) @ drop hi xs"

text \<open>\<^verbatim>\<open>binary.BigEndian.PutUint32(b, v)\<close> and its relatives, byte by byte.\<close>

definition PutUint32 :: "byte list \<Rightarrow> 32 word \<Rightarrow> byte list" where
  "PutUint32 b v = b[0 := ucast (drop_bit 24 v), 1 := ucast (drop_bit 16 v),
                     2 := ucast (drop_bit 8 v), 3 := ucast v]"

definition Uint32 :: "byte list \<Rightarrow> 32 word" where
  "Uint32 b = ucast (b ! 3) OR push_bit 8 (ucast (b ! 2)) OR push_bit 16 (ucast (b ! 1))
                OR push_bit 24 (ucast (b ! 0))"

definition PutUint64 :: "byte list \<Rightarrow> 64 word \<Rightarrow> byte list" where
  "PutUint64 b v = b[0 := ucast (drop_bit 56 v), 1 := ucast (drop_bit 48 v),
                     2 := ucast (drop_bit 40 v), 3 := ucast (drop_bit 32 v),
                     4 := ucast (drop_bit 24 v), 5 := ucast (drop_bit 16 v),
                     6 := ucast (drop_bit 8 v), 7 := ucast v]"

definition Uint64 :: "byte list \<Rightarrow> 64 word" where
  "Uint64 b = ucast (b ! 7) OR push_bit 8 (ucast (b ! 6)) OR push_bit 16 (ucast (b ! 5))
                OR push_bit 24 (ucast (b ! 4)) OR push_bit 32 (ucast (b ! 3))
                OR push_bit 40 (ucast (b ! 2)) OR push_bit 48 (ucast (b ! 1))
                OR push_bit 56 (ucast (b ! 0))"

subsection \<open>Encoding (\<^verbatim>\<open>Conn.WriteMessage\<close>) and decoding (\<^verbatim>\<open>Conn.readLoop\<close>)\<close>

text \<open>
  The first lines of \<^verbatim>\<open>WriteMessage\<close>: a zeroed array of \<^verbatim>\<open>protocol.MessageSize\<close> bytes
  receives the reserved bytes and then the five fields, each through a sub-slice at its
  offset.
\<close>

definition encode :: "protocol \<Rightarrow> Message \<Rightarrow> byte list" where
  "encode P message =
    (let e0 = replicate (MessageSize P) (0 :: byte);
         e1 = with_slice (\<lambda>d. copy_go d (ReservedBytes P)) e0
                (ReservedOffset P) (ReservedOffset P + ReservedSize P);
         e2 = with_slice (\<lambda>b. PutUint32 b (From message)) e1
                (FromOffset P) (FromOffset P + FromSize P);
         e3 = with_slice (\<lambda>b. PutUint32 b (To message)) e2
                (ToOffset P) (ToOffset P + ToSize P);
         e4 = with_slice (\<lambda>b. PutUint64 b (Id' message)) e3
                (IdOffset P) (IdOffset P + IdSize P);
         e5 = with_slice (\<lambda>b. PutUint32 b (Operation message)) e4
                (OperationOffset P) (OperationOffset P + OperationSize P);
         e6 = with_slice (\<lambda>b. PutUint64 b (ContentLength message)) e5
                (ContentLengthOffset P) (ContentLengthOffset P + ContentLengthSize P)
     in e6)"

text \<open>
  The reader's check of the reserved bytes (\<^verbatim>\<open>bytes.Equal\<close>) and its decoding of the
  header that starts at \<^verbatim>\<open>index\<close> in the scratch buffer.
\<close>

definition reserved_ok :: "protocol \<Rightarrow> byte list \<Rightarrow> nat \<Rightarrow> bool" where
  "reserved_ok P buf index =
    (slice buf (index + ReservedOffset P) (index + ReservedOffset P + ReservedSize P)
       = ReservedBytes P)"

definition decode :: "protocol \<Rightarrow> byte list \<Rightarrow> nat \<Rightarrow> Message" where
  "decode P buf index =
    \<lparr> From = Uint32 (slice buf (index + FromOffset P) (index + FromOffset P + FromSize P)),
      To = Uint32 (slice buf (index + ToOffset P) (index + ToOffset P + ToSize P)),
      Id' = Uint64 (slice buf (index + IdOffset P) (index + IdOffset P + IdSize P)),
      Operation = Uint32 (slice buf (index + OperationOffset P)
                    (index + OperationOffset P + OperationSize P)),
      ContentLength = Uint64 (slice buf (index + ContentLengthOffset P)
                        (index + ContentLengthOffset P + ContentLengthSize P)) \<rparr>"

text \<open>
  What the code relies on in the constants: the reserved bytes fill their window, every
  window lies inside the header and is wide enough for its integer, and no two windows
  overlap. (With constants that break the second condition the Go program does not
  compile or panics in every call.)
\<close>

definition apart :: "nat \<Rightarrow> nat \<Rightarrow> nat \<Rightarrow> nat \<Rightarrow> bool" where
  "apart a m b n = (a + m \<le> b \<or> b + n \<le> a)"

definition valid_protocol :: "protocol \<Rightarrow> bool" where
  "valid_protocol P =
    (length (ReservedBytes P) = ReservedSize P \<and>
     4 \<le> FromSize P \<and> 4 \<le> ToSize P \<and> 8 \<le> IdSize P \<and> 4 \<le> OperationSize P \<and>
     8 \<le> ContentLengthSize P \<and>
     ReservedOffset P + ReservedSize P \<le> MessageSize P \<and>
     FromOffset P + FromSize P \<le> MessageSize P \<and>
     ToOffset P + ToSize P \<le> MessageSize P \<and>
     IdOffset P + IdSize P \<le> MessageSize P \<and>
     OperationOffset P + OperationSize P \<le> MessageSize P \<and>
     ContentLengthOffset P + ContentLengthSize P \<le> MessageSize P \<and>
     apart (ReservedOffset P) (ReservedSize P) (FromOffset P) (FromSize P) \<and>
     apart (ReservedOffset P) (ReservedSize P) (ToOffset P) (ToSize P) \<and>
     apart (ReservedOffset P) (ReservedSize P) (IdOffset P) (IdSize P) \<and>
     apart (ReservedOffset P) (ReservedSize P) (OperationOffset P) (OperationSize P) \<and>
     apart (ReservedOffset P) (ReservedSize P) (ContentLengthOffset P) (ContentLengthSize P) \<and>
     apart (FromOffset P) (FromSize P) (ToOffset P) (ToSize P) \<and>
     apart (FromOffset P) (FromSize P) (IdOffset P) (IdSize P) \<and>
     apart (FromOffset P) (FromSize P) (OperationOffset P) (OperationSize P) \<and>
     apart (FromOffset P) (FromSize P) (ContentLengthOffset P) (ContentLengthSize P) \<and>
     apart (ToOffset P) (ToSize P) (IdOffset P) (IdSize P) \<and>
     apart (ToOffset P) (ToSize P) (OperationOffset P) (OperationSize P) \<and>
     apart (ToOffset P) (ToSize P) (ContentLengthOffset P) (ContentLengthSize P) \<and>
     apart (IdOffset P) (IdSize P) (OperationOffset P) (OperationSize P) \<and>
     apart (IdOffset P) (IdSize P) (ContentLengthOffset P) (ContentLengthSize P) \<and>
     apart (OperationOffset P) (OperationSize P) (ContentLengthOffset P) (ContentLengthSize P))"

text \<open>
  Modelled from the spec: the constants of \<^verbatim>\<open>internal/protocol\<close>, which is not among the
  sources. The table of the data model lists the reserved bytes (N of them, here the
  parameter \<open>rb\<close>), then From (4 bytes), To (4), Id (8), Operation (4) and
  ContentLength (8); the header width is their sum.
\<close>

definition spec_protocol :: "byte list \<Rightarrow> protocol" where
  "spec_protocol rb =
    \<lparr> ReservedBytes = rb,
      ReservedOffset = 0, ReservedSize = length rb,
      FromOffset = length rb, FromSize = 4,
      ToOffset = length rb + 4, ToSize = 4,
      IdOffset = length rb + 8, IdSize = 8,
      OperationOffset = length rb + 16, OperationSize = 4,
      ContentLengthOffset = length rb + 20, ContentLengthSize = 8,
      MessageSize = length rb + 28 \<rparr>"

section \<open>Errors, the underlying stream and the buffered writer\<close>

text \<open>
  Go's \<^verbatim>\<open>error\<close> values. The first seven are the package's own sentinels, \<open>EOF\<close>,
  \<open>ErrClosedPipe\<close> and \<open>ErrShortWrite\<close> those of package \<^verbatim>\<open>io\<close>, \<open>Timeout\<close> an
  error of the network whose \<^verbatim>\<open>Timeout()\<close> method answers true, \<open>OtherError k\<close> any
  other error. A variable of type \<^verbatim>\<open>error\<close> is an \<open>error option\<close>, \<open>None\<close> being
  \<^verbatim>\<open>nil\<close>.
\<close>

datatype error =
    ConnectionClosed
  | ConnectionPaused
  | ConnectionNotInitialized
  | InvalidContentLength
  | InvalidBufferLength
  | InvalidBufferContents
  | RingerBufferClosed
  | EOF
  | ErrClosedPipe
  | ErrShortWrite
  | Timeout
  | OtherError nat
  | WithContext "error option" string

text \<open>
  Modelled from the spec: the package \<^verbatim>\<open>internal/errors\<close> is not among the sources. Its
  \<^verbatim>\<open>WithContext\<close> wraps the underlying cause, and its \<^verbatim>\<open>Is\<close> is taken to be the standard
  \<^verbatim>\<open>errors.Is\<close>: equality with the target along the chain of wrapped errors.
\<close>

fun errors_Is :: "error option \<Rightarrow> error \<Rightarrow> bool" where
  "errors_Is None target = False"
| "errors_Is (Some (WithContext e ctx)) target =
     (WithContext e ctx = target \<or> errors_Is e target)"
| "errors_Is (Some e) target = (e = target)"

text \<open>\<^verbatim>\<open>os.IsTimeout\<close>: the error reports itself as a timeout.\<close>

definition os_IsTimeout :: "error \<Rightarrow> bool" where
  "os_IsTimeout e = (e = Timeout)"

text \<open>
  What a call does besides returning: it may panic, and it may block for ever. \<open>Blocks s\<close>
  carries the state in which the call that never returns has left things, for the other
  goroutines to see.
\<close>

datatype ('a, 's) outcome = Done 'a | Panics | Blocks 's

definition and_then :: "('a, 's) outcome \<Rightarrow> ('a \<Rightarrow> ('b, 's) outcome) \<Rightarrow> ('b, 's) outcome" where
  "and_then x f = (case x of Done a \<Rightarrow> f a | Panics \<Rightarrow> Panics | Blocks s \<Rightarrow> Blocks s)"

text \<open>
  The underlying stream (\<^verbatim>\<open>net.Conn\<close>). The model keeps the list of the operations
  performed on it, and \<open>wfail\<close>, the error with which the stream refuses a write at
  present (\<open>None\<close>: it accepts every byte).
\<close>

datatype stream_op =
    OpWrite "byte list"
  | OpWriteFailed "byte list"
  | OpSetReadDeadline bool
  | OpClose

record netConn =
  wfail :: "error option"
  ops :: "stream_op list"

definition conn_Write :: "netConn \<Rightarrow> byte list \<Rightarrow> netConn \<times> nat \<times> error option" where
  "conn_Write s p =
    (case wfail s of
       None \<Rightarrow> (s\<lparr>ops := ops s @ [OpWrite p]\<rparr>, length p, None)
     | Some e \<Rightarrow> (s\<lparr>ops := ops s @ [OpWriteFailed p]\<rparr>, 0, Some e))"

definition conn_SetReadDeadline :: "netConn \<Rightarrow> bool \<Rightarrow> netConn" where
  "conn_SetReadDeadline s t = s\<lparr>ops := ops s @ [OpSetReadDeadline t]\<rparr>"

definition conn_Close :: "netConn \<Rightarrow> netConn" where
  "conn_Close s = s\<lparr>ops := ops s @ [OpClose]\<rparr>"

text \<open>The bytes that the stream has accepted so far.\<close>

fun sent_bytes :: "stream_op list \<Rightarrow> byte list" where
  "sent_bytes [] = []"
| "sent_bytes (OpWrite p # r) = p @ sent_bytes r"
| "sent_bytes (_ # r) = sent_bytes r"

text \<open>
  Go's \<^verbatim>\<open>bufio.Writer\<close> over that stream, after the standard library: \<open>wbuf\<close> are the
  buffered bytes (\<^verbatim>\<open>b.buf[:b.n]\<close>), \<open>wsize\<close> is \<^verbatim>\<open>len(b.buf)\<close>, \<open>werr\<close> the sticky error
  \<^verbatim>\<open>b.err\<close>. \<^verbatim>\<open>Write\<close> fills the buffer and flushes it while the bytes do not fit, and
  writes to the stream directly when the buffer is empty. The stream takes a write whole
  or refuses it whole.
\<close>

record Writer =
  wbuf :: "byte list"
  wsize :: nat
  werr :: "error option"

text \<open>
  The bytes on their way to the peer, in order: those that the stream has accepted and
  those still in the buffer of the writer.
\<close>

definition wire :: "Writer \<Rightarrow> netConn \<Rightarrow> byte list" where
  "wire b s = sent_bytes (ops s) @ wbuf b"

definition NewWriterSize :: "nat \<Rightarrow> Writer" where
  "NewWriterSize sz = \<lparr> wbuf = [], wsize = sz, werr = None \<rparr>"

definition bufio_Available :: "Writer \<Rightarrow> nat" where
  "bufio_Available b = wsize b - length (wbuf b)"

definition bufio_Buffered :: "Writer \<Rightarrow> nat" where
  "bufio_Buffered b = length (wbuf b)"

definition bufio_Flush :: "Writer \<Rightarrow> netConn \<Rightarrow> Writer \<times> netConn \<times> error option" where
  "bufio_Flush b s =
    (case werr b of
       Some e \<Rightarrow> (b, s, Some e)
     | None \<Rightarrow>
        if wbuf b = [] then (b, s, None)
        else
          (case conn_Write s (wbuf b) of (s', n, err) \<Rightarrow>
            (case (if n < length (wbuf b) \<and> err = None then Some ErrShortWrite else err) of
               Some e \<Rightarrow> (b\<lparr>wbuf := drop n (wbuf b), werr := Some e\<rparr>, s', Some e)
             | None \<Rightarrow> (b\<lparr>wbuf := []\<rparr>, s', None))))"

function bufio_Write :: "Writer \<Rightarrow> netConn \<Rightarrow> byte list \<Rightarrow> Writer \<times> netConn \<times> error option" where
  "bufio_Write b s p =
    (if length p > bufio_Available b \<and> werr b = None then
       (if bufio_Buffered b = 0 then
          (case conn_Write s p of (s', n, e) \<Rightarrow> bufio_Write (b\<lparr>werr := e\<rparr>) s' (drop n p))
        else
          (let n = min (bufio_Available b) (length p);
               b1 = b\<lparr>wbuf := wbuf b @ take n p\<rparr>
           in case bufio_Flush b1 s of (b2, s', e) \<Rightarrow> bufio_Write b2 s' (drop n p)))
     else
       (case werr b of
          Some e \<Rightarrow> (b, s, Some e)
        | None \<Rightarrow> (b\<lparr>wbuf := wbuf b @ p\<rparr>, s, None)))"
  by pat_completeness auto
termination
  apply (relation "measure (\<lambda>(b, s, p).
         if werr b = None then 2 * length p + (if wbuf b = [] then 0 else 1) + 1 else 0)")
    apply simp
   apply (auto simp: conn_Write_def bufio_Buffered_def bufio_Flush_def bufio_Available_def
      split: option.splits if_splits)
  done

declare bufio_Write.simps [simp del]

section \<open>The connection engine (\<^verbatim>\<open>Conn\<close>)\<close>

text \<open>
  The model follows one call at a time: what the call does to the connection when no
  other goroutine interferes. Mutexes and the logger have no counterpart. The wait group
  of the two workers has one: a call is made by a goroutine, and \<^verbatim>\<open>c.wg.Wait()\<close> in
  \<^verbatim>\<open>killGoroutines\<close> depends on which.
\<close>

datatype conn_state = CONNECTED | CLOSED | PAUSED

text \<open>
  The goroutine that makes a call: one of the two workers that \<^verbatim>\<open>New\<close> starts
  (\<^verbatim>\<open>flushLoop\<close>, \<^verbatim>\<open>readLoop\<close>), or any other goroutine.
\<close>

datatype goroutine = Application | FlushLoop | ReadLoop

record Packet =
  Message' :: Message
  Content :: "byte list option"

text \<open>
  Modelled from the spec: the package \<^verbatim>\<open>internal/ringbuffer\<close> is not among the sources.
  The bounded queue of the spec: \<^verbatim>\<open>Push\<close> fails once the queue is closed, stores the
  packet otherwise and blocks while the queue is full; \<^verbatim>\<open>Pop\<close> returns the head, fails
  when the queue is closed and empty, and blocks when it is open and empty; \<^verbatim>\<open>Close\<close>
  is idempotent. The error is the spec's \<open>QueueClosed\<close>, here \<open>RingerBufferClosed\<close>. The
  result \<open>None\<close> says that the caller blocks.
\<close>

record RingBuffer =
  items :: "Packet list"
  capacity :: nat
  rbclosed :: bool

definition NewRingBuffer :: "nat \<Rightarrow> RingBuffer" where
  "NewRingBuffer k = \<lparr> items = [], capacity = k, rbclosed = False \<rparr>"

definition rb_Push :: "RingBuffer \<Rightarrow> Packet \<Rightarrow> (RingBuffer \<times> error option) option" where
  "rb_Push r p =
    (if rbclosed r then Some (r, Some RingerBufferClosed)
     else if length (items r) < capacity r then Some (r\<lparr>items := items r @ [p]\<rparr>, None)
     else None)"

definition rb_Pop :: "RingBuffer \<Rightarrow> (RingBuffer \<times> (error + Packet)) option" where
  "rb_Pop r =
    (case items r of
       p # rest \<Rightarrow> Some (r\<lparr>items := rest\<rparr>, Inr p)
     | [] \<Rightarrow> if rbclosed r then Some (r, Inl RingerBufferClosed) else None)"

definition rb_Close :: "RingBuffer \<Rightarrow> RingBuffer" where
  "rb_Close r = r\<lparr>rbclosed := True\<rparr>"

text \<open>
  The channel \<^verbatim>\<open>flusher\<close> (\<^verbatim>\<open>chan struct{}\<close> of capacity 1024): the number of pending
  signals and whether the channel is closed.
\<close>

record chan =
  chlen :: nat
  chclosed :: bool

definition make_chan :: chan where
  "make_chan = \<lparr> chlen = 0, chclosed = False \<rparr>"

text \<open>
  The end of \<^verbatim>\<open>WriteMessage\<close> and of \<^verbatim>\<open>StreamConn.Write\<close>: when no signal is pending,
  a send that does not block. Sending on a closed channel panics: the result \<open>None\<close>.
\<close>

definition wake :: "chan \<Rightarrow> chan option" where
  "wake ch =
    (if chlen ch = 0 then
       (if chclosed ch then None
        else if chlen ch < 1024 then Some (ch\<lparr>chlen := chlen ch + 1\<rparr>)
        else Some ch)
     else Some ch)"

text \<open>
  A sub-stream object. Go holds it by pointer, in the map \<^verbatim>\<open>streamConns\<close> and in the
  hands of the application at once: the objects live in the field \<open>heap\<close> of their
  connection, and a pointer is an index into it. The embedded \<^verbatim>\<open>*Conn\<close> is that
  connection.
\<close>

record StreamConn =
  id' :: "64 word"
  incomingBuffer :: "byte list"
  closed :: bool

record Conn =
  conn :: netConn
  state :: conn_state
  writer :: Writer
  flusher :: chan
  incomingMessages :: RingBuffer
  streamConns :: "64 word \<rightharpoonup> nat"
  StreamConnCh :: "nat list"
  error :: "error option"
  heap :: "StreamConn list"

type_synonym 'a result = "('a, Conn) outcome"

definition DefaultBufferSize :: nat where
  "DefaultBufferSize = 2 ^ 19"

text \<open>
  \<^verbatim>\<open>New\<close> wraps a stream. The logger is left out; the two goroutines that \<^verbatim>\<open>New\<close>
  starts are the workers \<open>FlushLoop\<close> and \<open>ReadLoop\<close>, after \<^verbatim>\<open>c.wg.Add(2)\<close>.
\<close>

definition New :: "netConn \<Rightarrow> Conn" where
  "New c =
    \<lparr> conn = c,
      state = CONNECTED,
      writer = NewWriterSize DefaultBufferSize,
      flusher = make_chan,
      incomingMessages = NewRingBuffer DefaultBufferSize,
      streamConns = Map.empty,
      StreamConnCh = [],
      error = Some ConnectionClosed,
      heap = [] \<rparr>"

definition Error :: "Conn \<Rightarrow> error option" where
  "Error c = error c"

text \<open>
  \<^verbatim>\<open>killGoroutines\<close> closes the incoming queue and the flusher channel (closing a closed
  channel panics), sets a read deadline that has passed, and waits for the two workers:
  \<^verbatim>\<open>c.wg.Wait()\<close> returns when both have run their deferred \<^verbatim>\<open>c.wg.Done()\<close>, which a
  worker does when its loop returns. A worker that makes the call itself is inside its
  loop and stays there: its call never returns. For any other goroutine the wait is
  taken to end (the closed channel ends \<^verbatim>\<open>flushLoop\<close>, the deadline ends the read of
  \<^verbatim>\<open>readLoop\<close>), and the deadline is cleared.
\<close>

definition killGoroutines :: "goroutine \<Rightarrow> Conn \<Rightarrow> Conn result" where
  "killGoroutines g c =
    (if chclosed (flusher c) then Panics
     else
       let c1 = c\<lparr> incomingMessages := rb_Close (incomingMessages c),
                    flusher := (flusher c)\<lparr>chclosed := True\<rparr>,
                    conn := conn_SetReadDeadline (conn c) True \<rparr>
       in if g = Application then Done (c1\<lparr>conn := conn_SetReadDeadline (conn c1) False\<rparr>)
          else Blocks c1)"

definition pause :: "goroutine \<Rightarrow> Conn \<Rightarrow> (Conn \<times> error option) result" where
  "pause g c =
    (if state c = CONNECTED then
       and_then (killGoroutines g (c\<lparr>state := PAUSED, error := Some ConnectionPaused\<rparr>))
         (\<lambda>c1. Done (c1, None))
     else if state c = PAUSED then Done (c, Some ConnectionPaused)
     else Done (c, Some ConnectionNotInitialized))"

definition close :: "goroutine \<Rightarrow> Conn \<Rightarrow> (Conn \<times> error option) result" where
  "close g c =
    (if state c = CONNECTED then
       and_then (killGoroutines g (c\<lparr>state := CLOSED, error := Some ConnectionClosed\<rparr>))
         (\<lambda>c1. if bufio_Buffered (writer c1) > 0 then
                 (case bufio_Flush (writer c1) (conn c1) of
                    (w, s, _) \<Rightarrow> Done (c1\<lparr>writer := w, conn := s\<rparr>, None))
               else Done (c1, None))
     else if state c = PAUSED then
       Done (c\<lparr>state := CLOSED, error := Some ConnectionClosed\<rparr>, None)
     else Done (c, Some ConnectionClosed))"

definition closeWithError :: "goroutine \<Rightarrow> Conn \<Rightarrow> error \<Rightarrow> (Conn \<times> error option) result" where
  "closeWithError g c err =
    (if os_IsTimeout err then Done (c, Some err)
     else if errors_Is (Some err) EOF \<or> errors_Is (Some err) ErrClosedPipe then
       and_then (pause g c)
         (\<lambda>(c1, pauseError).
            if errors_Is pauseError ConnectionNotInitialized
            then Done (c1, Some ConnectionNotInitialized)
            else Done (c1, Some ConnectionPaused))
     else
       and_then (close g c)
         (\<lambda>(c1, closeError).
            if errors_Is closeError ConnectionClosed then Done (c1, Some ConnectionClosed)
            else Done (c1\<lparr>error := Some err, conn := conn_Close (conn c1)\<rparr>, Some err)))"

text \<open>
  The methods below are called by the application and by the client's loop, never by the
  two workers, which call \<^verbatim>\<open>closeWithError\<close> only.

  What \<^verbatim>\<open>WriteMessage\<close> and \<^verbatim>\<open>StreamConn.Write\<close> do when the buffered writer reports
  the error \<open>e\<close> (the mutex is released first).
\<close>

definition write_failed :: "Conn \<Rightarrow> error \<Rightarrow> (Conn \<times> error option) result" where
  "write_failed c e =
    (if state c \<noteq> CONNECTED then Done (c, Some (WithContext (Error c) ''WRITE''))
     else closeWithError Application c e)"

text \<open>The wake for the flusher, and the return of \<^verbatim>\<open>nil\<close>.\<close>

definition wake_and_return :: "Conn \<Rightarrow> (Conn \<times> error option) result" where
  "wake_and_return c =
    (case wake (flusher c) of
       None \<Rightarrow> Panics
     | Some f \<Rightarrow> Done (c\<lparr>flusher := f\<rparr>, None))"

text \<open>
  Go's \<^verbatim>\<open>int\<close> is taken to be 64 bits wide: \<^verbatim>\<open>int(message.ContentLength)\<close> reads the
  64 bits as a signed number.
\<close>

definition WriteMessage ::
  "protocol \<Rightarrow> Conn \<Rightarrow> Message \<Rightarrow> byte list option \<Rightarrow> (Conn \<times> error option) result" where
  "WriteMessage P c message content =
    (if (case content of None \<Rightarrow> False
         | Some p \<Rightarrow> sint (ContentLength message) \<noteq> int (length p))
     then Done (c, Some InvalidContentLength)
     else
       let encodedMessage = encode P message in
       if state c \<noteq> CONNECTED then Done (c, Error c)
       else
         (case bufio_Write (writer c) (conn c) encodedMessage of
            (w1, s1, Some e) \<Rightarrow> write_failed (c\<lparr>writer := w1, conn := s1\<rparr>) e
          | (w1, s1, None) \<Rightarrow>
              (case content of
                 None \<Rightarrow> wake_and_return (c\<lparr>writer := w1, conn := s1\<rparr>)
               | Some p \<Rightarrow>
                   (case bufio_Write w1 s1 p of
                      (w2, s2, Some e) \<Rightarrow> write_failed (c\<lparr>writer := w2, conn := s2\<rparr>) e
                    | (w2, s2, None) \<Rightarrow> wake_and_return (c\<lparr>writer := w2, conn := s2\<rparr>)))))"

definition ReadMessage ::
  "Conn \<Rightarrow> (Conn \<times> (error option + Message \<times> byte list option)) result" where
  "ReadMessage c =
    (if state c \<noteq> CONNECTED then Done (c, Inl (Error c))
     else
       (case rb_Pop (incomingMessages c) of
          None \<Rightarrow> Blocks c
        | Some (q, Inr readPacket) \<Rightarrow>
            Done (c\<lparr>incomingMessages := q\<rparr>, Inr (Message' readPacket, Content readPacket))
        | Some (q, Inl err) \<Rightarrow>
            (let c1 = c\<lparr>incomingMessages := q\<rparr> in
             if state c1 \<noteq> CONNECTED
             then Done (c1, Inl (Some (WithContext (Error c1) ''POP'')))
             else and_then (closeWithError Application c1 err)
                    (\<lambda>(c2, e). Done (c2, Inl (Some (WithContext e ''POP'')))))))"

definition Flush :: "Conn \<Rightarrow> (Conn \<times> error option) result" where
  "Flush c =
    (if bufio_Buffered (writer c) > 0 then
       (case bufio_Flush (writer c) (conn c) of
          (w, s, Some e) \<Rightarrow>
            and_then (closeWithError Application (c\<lparr>writer := w, conn := s\<rparr>) e)
              (\<lambda>(c1, _). Done (c1, Some e))
        | (w, s, None) \<Rightarrow> Done (c\<lparr>writer := w, conn := s\<rparr>, None))
     else Done (c, None))"

definition WriteBufferSize :: "Conn \<Rightarrow> nat" where
  "WriteBufferSize c = (if state c \<noteq> CONNECTED then 0 else bufio_Buffered (writer c))"

definition Raw :: "Conn \<Rightarrow> (Conn \<times> netConn) result" where
  "Raw c = and_then (close Application c) (\<lambda>(c1, _). Done (c1, conn c1))"

definition Close :: "Conn \<Rightarrow> (Conn \<times> error option) result" where
  "Close c =
    and_then (close Application c)
      (\<lambda>(c1, err).
         if errors_Is err ConnectionClosed then Done (c1, None)
         else Done (c1\<lparr>conn := conn_Close (conn c1)\<rparr>, err))"

text \<open>
  One turn of the loop of \<^verbatim>\<open>flushLoop\<close>; the flag says whether the worker has returned.
  A receive from the channel takes a pending signal, reports a closed and empty channel,
  and blocks on an open and empty one.
\<close>

definition flushLoop_step :: "Conn \<Rightarrow> (Conn \<times> bool) result" where
  "flushLoop_step c =
    (if chlen (flusher c) = 0 then
       (if chclosed (flusher c) then Done (c, True) else Blocks c)
     else
       (let c0 = c\<lparr>flusher := (flusher c)\<lparr>chlen := chlen (flusher c) - 1\<rparr>\<rparr> in
        if bufio_Buffered (writer c0) > 0 then
          (case bufio_Flush (writer c0) (conn c0) of
             (w, s, Some e) \<Rightarrow>
               and_then (closeWithError FlushLoop (c0\<lparr>writer := w, conn := s\<rparr>) e)
                 (\<lambda>(c1, _). Done (c1, True))
           | (w, s, None) \<Rightarrow> Done (c0\<lparr>writer := w, conn := s\<rparr>, False))
        else Done (c0, False)))"

section \<open>Sub-streams (\<^verbatim>\<open>StreamConn\<close>)\<close>

definition NewStreamConn :: "Conn \<Rightarrow> 64 word \<Rightarrow> Conn \<times> nat" where
  "NewStreamConn c i =
    (let streamConn = length (heap c)
     in (c\<lparr> heap := heap c @ [\<lparr> id' = i, incomingBuffer = [], closed = False \<rparr>],
             streamConns := (streamConns c)(i \<mapsto> streamConn) \<rparr>,
         streamConn))"

text \<open>
  The methods take the connection and the pointer \<open>s\<close> to the sub-stream; a pointer to
  no object makes them panic.
\<close>

definition StreamConn_Closed :: "Conn \<Rightarrow> nat \<Rightarrow> bool result" where
  "StreamConn_Closed c s = (if s < length (heap c) then Done (closed (heap c ! s)) else Panics)"

definition StreamConn_Close ::
  "protocol \<Rightarrow> opcodes \<Rightarrow> Conn \<Rightarrow> nat \<Rightarrow> (Conn \<times> error option) result" where
  "StreamConn_Close P Q c s =
    (if s < length (heap c) then
       WriteMessage P (c\<lparr>heap := (heap c)[s := (heap c ! s)\<lparr>closed := True\<rparr>]\<rparr>)
         \<lparr> From = 0, To = 0, Id' = id' (heap c ! s), Operation = STREAMCLOSE Q,
           ContentLength = 0 \<rparr> None
     else Panics)"

text \<open>The header that \<^verbatim>\<open>StreamConn.Write\<close> builds for \<open>k\<close> bytes of content.\<close>

definition encode_stream :: "protocol \<Rightarrow> opcodes \<Rightarrow> 64 word \<Rightarrow> nat \<Rightarrow> byte list" where
  "encode_stream P Q i k =
    (let e0 = replicate (MessageSize P) (0 :: byte);
         e1 = with_slice (\<lambda>d. copy_go d (ReservedBytes P)) e0
                (ReservedOffset P) (ReservedOffset P + ReservedSize P);
         e2 = with_slice (\<lambda>b. PutUint64 b i) e1
                (IdOffset P) (IdOffset P + IdSize P);
         e3 = with_slice (\<lambda>b. PutUint32 b (STREAM Q)) e2
                (OperationOffset P) (OperationOffset P + OperationSize P);
         e4 = with_slice (\<lambda>b. PutUint64 b (of_nat k)) e3
                (ContentLengthOffset P) (ContentLengthOffset P + ContentLengthSize P)
     in e4)"

definition StreamConn_Write ::
  "protocol \<Rightarrow> opcodes \<Rightarrow> Conn \<Rightarrow> nat \<Rightarrow> byte list \<Rightarrow> (Conn \<times> nat \<times> error option) result" where
  "StreamConn_Write P Q c s p =
    (if s < length (heap c) then
       let encodedMessage = encode_stream P Q (id' (heap c ! s)) (length p) in
       if state c \<noteq> CONNECTED then Done (c, 0, Error c)
       else if closed (heap c ! s) then Done (c, 0, Some ConnectionClosed)
       else
         (case bufio_Write (writer c) (conn c) encodedMessage of
            (w1, s1, Some e) \<Rightarrow>
              and_then (write_failed (c\<lparr>writer := w1, conn := s1\<rparr>) e)
                (\<lambda>(c1, err). Done (c1, 0, err))
          | (w1, s1, None) \<Rightarrow>
              (case bufio_Write w1 s1 p of
                 (w2, s2, Some e) \<Rightarrow>
                   and_then (write_failed (c\<lparr>writer := w2, conn := s2\<rparr>) e)
                     (\<lambda>(c1, err). Done (c1, 0, err))
               | (w2, s2, None) \<Rightarrow>
                   and_then (wake_and_return (c\<lparr>writer := w2, conn := s2\<rparr>))
                     (\<lambda>(c1, _). Done (c1, length p, None))))
     else Panics)"

section \<open>The reader worker: one frame\<close>

text \<open>
  The body of the inner loop of \<^verbatim>\<open>readLoop\<close>, from the check of the reserved bytes to
  the label \<^verbatim>\<open>READ\<close>, for the scratch buffer \<open>buf\<close>, the position \<open>index\<close> and the
  number \<open>n\<close> of bytes read. Two branches read on from the stream and are outside this
  development: the content of a \<^verbatim>\<open>STREAM\<close> frame (result \<open>StreamPayload\<close>), and a
  content that goes beyond the bytes read so far (result \<open>PartialPayload\<close>). The other
  results say where control goes: out of the inner loop (\<open>Break\<close>), to the label
  \<^verbatim>\<open>READ\<close> with a new index, or out of the worker (\<open>Return\<close>). \<^verbatim>\<open>make\<close> panics on a
  negative length; the limits of memory are not modelled.
\<close>

datatype frame_next =
    Break
  | READ nat
  | Return
  | StreamPayload Message nat
  | PartialPayload Message nat

definition push_packet :: "Conn \<Rightarrow> Packet \<Rightarrow> frame_next \<Rightarrow> (Conn \<times> frame_next) result" where
  "push_packet c packet k =
    (case rb_Push (incomingMessages c) packet of
       None \<Rightarrow> Blocks c
     | Some (q, None) \<Rightarrow> Done (c\<lparr>incomingMessages := q\<rparr>, k)
     | Some (q, Some e) \<Rightarrow>
         and_then (closeWithError ReadLoop (c\<lparr>incomingMessages := q\<rparr>) e)
           (\<lambda>(c1, _). Done (c1, Return)))"

text \<open>
  A slice expression \<^verbatim>\<open>buf[lo:hi]\<close> panics when \<open>hi\<close> is beyond the buffer (whose length
  is its capacity here). \<open>fields_in\<close> says that the five windows of the header at
  \<open>index\<close> are inside the buffer.
\<close>

definition fields_in :: "protocol \<Rightarrow> byte list \<Rightarrow> nat \<Rightarrow> bool" where
  "fields_in P buf index =
    (index + FromOffset P + FromSize P \<le> length buf \<and>
     index + ToOffset P + ToSize P \<le> length buf \<and>
     index + IdOffset P + IdSize P \<le> length buf \<and>
     index + OperationOffset P + OperationSize P \<le> length buf \<and>
     index + ContentLengthOffset P + ContentLengthSize P \<le> length buf)"

definition readLoop_frame ::
  "protocol \<Rightarrow> opcodes \<Rightarrow> Conn \<Rightarrow> byte list \<Rightarrow> nat \<Rightarrow> nat \<Rightarrow> (Conn \<times> frame_next) result" where
  "readLoop_frame P Q c buf index n =
    (if length buf < index + ReservedOffset P + ReservedSize P then Panics
     else if \<not> reserved_ok P buf index then Done (c, Break)
     else if \<not> fields_in P buf index then Panics
     else
       let decodedMessage = decode P buf index;
           index1 = index + MessageSize P
       in
       if Operation decodedMessage = STREAMCLOSE Q then
         (case streamConns c (Id' decodedMessage) of
            Some streamConn \<Rightarrow>
              if streamConn < length (heap c) then
                Done (c\<lparr> heap := (heap c)[streamConn := (heap c ! streamConn)\<lparr>closed := True\<rparr>],
                         streamConns := (streamConns c)(Id' decodedMessage := None) \<rparr>,
                      READ index1)
              else Panics
          | None \<Rightarrow> Done (c, READ index1))
       else if ContentLength decodedMessage > 0 then
         (if Operation decodedMessage = STREAM Q then
            Done (c, StreamPayload decodedMessage index1)
          else if sint (ContentLength decodedMessage) < 0 then Panics
          else if int n - int index1 < sint (ContentLength decodedMessage) then
            Done (c, PartialPayload decodedMessage index1)
          else
            (let k = nat (sint (ContentLength decodedMessage)) in
             if length buf < index1 + k then Panics
             else
               let readContent =
                     copy_go (replicate k (0 :: byte)) (slice buf index1 (index1 + k))
               in push_packet c \<lparr> Message' = decodedMessage, Content = Some readContent \<rparr>
                    (READ (index1 + k))))
       else
         push_packet c \<lparr> Message' = decodedMessage, Content = None \<rparr> (READ index1))"

section \<open>The client's router loop (\<^verbatim>\<open>Client.reactor\<close>)\<close>

text \<open>
  Modelled from the spec: the type \<^verbatim>\<open>Action\<close> is not among the sources; the spec names
  its values.
\<close>

datatype Action = NONE | CLOSE | SHUTDOWN

text \<open>
  A handler is taken as a function of the message and its content; a \<^verbatim>\<open>nil\<close> slice is
  the empty list.
\<close>

type_synonym ClientRouterFunc = "Message \<Rightarrow> byte list \<Rightarrow> Message option \<times> byte list \<times> Action"

record Client =
  conn' :: Conn
  router :: "32 word \<rightharpoonup> ClientRouterFunc"
  closed' :: bool

definition Client_Close :: "Client \<Rightarrow> (Client \<times> error option) result" where
  "Client_Close cl =
    and_then (Close (conn' cl)) (\<lambda>(c1, err). Done (cl\<lparr>closed' := True, conn' := c1\<rparr>, err))"

text \<open>
  What one turn of the loop does is recorded as a list of events: the call of a handler
  and the call of \<^verbatim>\<open>WriteMessage\<close> for the reply.
\<close>

datatype reactor_event =
    Handled Message "byte list"
  | Replied Message "byte list"

text \<open>
  The content that the handler receives: \<^verbatim>\<open>nil\<close> when the header's \<open>ContentLength\<close> is
  0 or the packet has no content, the packet's content otherwise.
\<close>

definition handler_content :: "Message \<Rightarrow> byte list option \<Rightarrow> byte list" where
  "handler_content incomingMessage incomingContent =
    (case incomingContent of
       None \<Rightarrow> []
     | Some p \<Rightarrow> if ContentLength incomingMessage = 0 then [] else p)"

text \<open>
  The part of a turn after \<^verbatim>\<open>ReadMessage\<close> has returned a packet. The flag of the
  result says whether the loop goes on.
\<close>

definition reactor_route ::
  "protocol \<Rightarrow> Client \<Rightarrow> Message \<Rightarrow> byte list option
     \<Rightarrow> (Client \<times> reactor_event list \<times> bool) result" where
  "reactor_route P cl incomingMessage incomingContent =
    (case router cl (Operation incomingMessage) of
       None \<Rightarrow> Done (cl, [], True)
     | Some routerFunc \<Rightarrow>
        (let arg = handler_content incomingMessage incomingContent;
             handled = Handled incomingMessage arg;
             act = (\<lambda>cl1 evs action.
                      case action of
                        CLOSE \<Rightarrow> and_then (Client_Close cl1) (\<lambda>(cl2, _). Done (cl2, evs, False))
                      | SHUTDOWN \<Rightarrow> and_then (Client_Close cl1) (\<lambda>(cl2, _). Done (cl2, evs, False))
                      | NONE \<Rightarrow> Done (cl1, evs, True))
         in case routerFunc incomingMessage arg of
           (Some outgoingMessage, outgoingContent, action) \<Rightarrow>
             if ContentLength outgoingMessage = of_nat (length outgoingContent) then
               and_then (WriteMessage P (conn' cl) outgoingMessage (Some outgoingContent))
                 (\<lambda>(c1, err).
                    case err of
                      Some e \<Rightarrow>
                        and_then (Client_Close (cl\<lparr>conn' := c1\<rparr>))
                          (\<lambda>(cl2, _).
                             Done (cl2, [handled, Replied outgoingMessage outgoingContent], False))
                    | None \<Rightarrow>
                        act (cl\<lparr>conn' := c1\<rparr>)
                          [handled, Replied outgoingMessage outgoingContent] action)
             else act cl [handled] action
         | (None, outgoingContent, action) \<Rightarrow> act cl [handled] action))"

definition reactor_step ::
  "protocol \<Rightarrow> Client \<Rightarrow> (Client \<times> reactor_event list \<times> bool) result" where
  "reactor_step P cl =
    (if closed' cl then Done (cl, [], False)
     else
       and_then (ReadMessage (conn' cl))
         (\<lambda>(c1, r).
            case r of
              Inl err \<Rightarrow>
                and_then (Client_Close (cl\<lparr>conn' := c1\<rparr>)) (\<lambda>(cl2, _). Done (cl2, [], False))
            | Inr (incomingMessage, incomingContent) \<Rightarrow>
                reactor_route P (cl\<lparr>conn' := c1\<rparr>) incomingMessage incomingContent))"

section \<open>Reachable connections\<close>

text \<open>
  The connections that the program can produce: \<^verbatim>\<open>New\<close> makes one, and every operation
  of the engine, of its workers and of its sub-streams leads from one to the next, when
  it returns and when a worker's call blocks for ever. The stream underneath may start or stop refusing writes at any moment. The last
  three rules stand for the code that this development does not follow step by step (the
  reader's handling of the content of \<^verbatim>\<open>STREAM\<close> frames and of contents that it reads on
  from the stream, and \<^verbatim>\<open>Read\<close>, \<^verbatim>\<open>WriteTo\<close> and \<^verbatim>\<open>ReadFrom\<close> of a sub-stream): besides
  what the other rules do, that code changes the receive buffer of a sub-stream,
  announces a sub-stream on the channel \<^verbatim>\<open>StreamConnCh\<close>, and pushes a packet.
\<close>

inductive reachable :: "protocol \<Rightarrow> opcodes \<Rightarrow> Conn \<Rightarrow> bool" for P :: protocol and Q :: opcodes where
  r_New: "reachable P Q (New s)"
| r_stream: "reachable P Q c \<Longrightarrow> reachable P Q (c\<lparr>conn := (conn c)\<lparr>wfail := e\<rparr>\<rparr>)"
| r_WriteMessage: "reachable P Q c \<Longrightarrow> WriteMessage P c m content = Done (c', r) \<Longrightarrow> reachable P Q c'"
| r_ReadMessage: "reachable P Q c \<Longrightarrow> ReadMessage c = Done (c', x) \<Longrightarrow> reachable P Q c'"
| r_Flush: "reachable P Q c \<Longrightarrow> Flush c = Done (c', r) \<Longrightarrow> reachable P Q c'"
| r_Raw: "reachable P Q c \<Longrightarrow> Raw c = Done (c', y) \<Longrightarrow> reachable P Q c'"
| r_Close: "reachable P Q c \<Longrightarrow> Close c = Done (c', r) \<Longrightarrow> reachable P Q c'"
| r_closeWithError: "reachable P Q c \<Longrightarrow> closeWithError g c e' = Done (c', r) \<Longrightarrow> reachable P Q c'"
| r_closeWithError_blocks: "reachable P Q c \<Longrightarrow> closeWithError g c e' = Blocks c' \<Longrightarrow> reachable P Q c'"
| r_flushLoop: "reachable P Q c \<Longrightarrow> flushLoop_step c = Done (c', b) \<Longrightarrow> reachable P Q c'"
| r_flushLoop_blocks: "reachable P Q c \<Longrightarrow> flushLoop_step c = Blocks c' \<Longrightarrow> reachable P Q c'"
| r_readLoop: "reachable P Q c \<Longrightarrow> readLoop_frame P Q c buf index n = Done (c', k) \<Longrightarrow> reachable P Q c'"
| r_readLoop_blocks: "reachable P Q c \<Longrightarrow> readLoop_frame P Q c buf index n = Blocks c' \<Longrightarrow> reachable P Q c'"
| r_NewStreamConn: "reachable P Q c \<Longrightarrow> NewStreamConn c i = (c', a) \<Longrightarrow> reachable P Q c'"
| r_StreamConn_Close: "reachable P Q c \<Longrightarrow> StreamConn_Close P Q c a = Done (c', r) \<Longrightarrow> reachable P Q c'"
| r_StreamConn_Write: "reachable P Q c \<Longrightarrow> StreamConn_Write P Q c a p = Done (c', l, r) \<Longrightarrow> reachable P Q c'"
| r_incomingBuffer: "reachable P Q c \<Longrightarrow> a < length (heap c) \<Longrightarrow>
    reachable P Q (c\<lparr>heap := (heap c)[a := (heap c ! a)\<lparr>incomingBuffer := b'\<rparr>]\<rparr>)"
| r_StreamConnCh: "reachable P Q c \<Longrightarrow> reachable P Q (c\<lparr>StreamConnCh := l'\<rparr>)"
| r_Push: "reachable P Q c \<Longrightarrow> rb_Push (incomingMessages c) packet = Some (q, None) \<Longrightarrow>
    reachable P Q (c\<lparr>incomingMessages := q\<rparr>)"

text \<open>
  The invariant of the reachable connections: the last-error cell is never \<^verbatim>\<open>nil\<close>,
  it holds \<open>ConnectionClosed\<close> while the state is \<open>CONNECTED\<close> and the flusher channel
  is open then, it holds \<open>ConnectionPaused\<close> while the state is \<open>PAUSED\<close>, and the map of
  sub-streams points to objects that exist.
\<close>

definition conn_inv :: "Conn \<Rightarrow> bool" where
  "conn_inv c =
    (error c \<noteq> None \<and>
     (state c = CONNECTED \<longrightarrow> error c = Some ConnectionClosed \<and> \<not> chclosed (flusher c)) \<and>
     (state c = PAUSED \<longrightarrow> error c = Some ConnectionPaused) \<and>
     (\<forall>i a. streamConns c i = Some a \<longrightarrow> a < length (heap c)))"

text \<open>
  \<open>after x I\<close>: the connection that the call \<open>x\<close> leaves behind, returned or blocked,
  satisfies \<open>I\<close>.
\<close>

definition after :: "(Conn \<times> 'a) result \<Rightarrow> (Conn \<Rightarrow> bool) \<Rightarrow> bool" where
  "after x I = (case x of Done (c, _) \<Rightarrow> I c | Blocks c \<Rightarrow> I c | Panics \<Rightarrow> True)"

section \<open>A sample connection\<close>

text \<open>
  Concrete values on which the theorems below are exercised: a protocol with four
  reserved bytes, operation codes, a stream that accepts every write, and a message.
\<close>

definition sample_protocol :: protocol where
  "sample_protocol = spec_protocol [70, 82, 83, 66]"

definition sample_opcodes :: opcodes where
  "sample_opcodes = \<lparr> HEARTBEAT = 0, STREAM = 1, STREAMCLOSE = 2 \<rparr>"

definition sample_stream :: netConn where
  "sample_stream = \<lparr> wfail = None, ops = [] \<rparr>"

definition sample_message :: Message where
  "sample_message = \<lparr> From = 1, To = 2, Id' = 258, Operation = 16, ContentLength = 3 \<rparr>"

text \<open>
  A connection with one sub-stream (its pointer is 0), and the same connection after its
  peer has gone away: \<^verbatim>\<open>closeWithError\<close> with \<open>EOF\<close> has paused it.
\<close>

definition sample_conn :: Conn where
  "sample_conn = fst (NewStreamConn (New sample_stream) 7)"

definition sample_paused :: Conn where
  "sample_paused =
    sample_conn\<lparr> state := PAUSED, error := Some ConnectionPaused,
      incomingMessages := rb_Close (incomingMessages sample_conn),
      flusher := (flusher sample_conn)\<lparr>chclosed := True\<rparr>,
      conn := conn_SetReadDeadline (conn_SetReadDeadline (conn sample_conn) True) False \<rparr>"

text \<open>
  A client on that connection whose only handler, for operation 16, echoes the content
  under operation 17.
\<close>

definition sample_client :: Client where
  "sample_client =
    \<lparr> conn' = sample_conn,
      router = [16 \<mapsto> (\<lambda>m p. (Some (m\<lparr>Operation := 17\<rparr>), p, NONE))],
      closed' = False \<rparr>"

section \<open>Properties of the wire format\<close>

lemma bit_byte_at:
  "bit (push_bit k (ucast (ucast (drop_bit k v) :: byte)) :: 'a::len word) n
     \<longleftrightarrow> k \<le> n \<and> n < k + 8 \<and> n < LENGTH('a) \<and> bit (v :: 'a word) n"
  by (auto simp add: bit_simps)

lemma bit_byte_0:
  "bit (ucast (ucast v :: byte) :: 'a::len word) n
     \<longleftrightarrow> n < 8 \<and> n < LENGTH('a) \<and> bit (v :: 'a word) n"
  by (auto simp add: bit_simps)

lemma be32:
  "ucast (ucast (v::32 word) :: byte) OR push_bit 8 (ucast (ucast (drop_bit 8 v) :: byte))
     OR push_bit 16 (ucast (ucast (drop_bit 16 v) :: byte))
     OR push_bit 24 (ucast (ucast (drop_bit 24 v) :: byte)) = v"
proof (rule bit_word_eqI)
  fix n assume "n < LENGTH(32)"
  then have n: "n < 8 \<or> 8 \<le> n \<and> n < 16 \<or> 16 \<le> n \<and> n < 24 \<or> 24 \<le> n \<and> n < 32"
    by (simp add: not_less) linarith
  show "bit (ucast (ucast (v::32 word) :: byte)
     OR push_bit 8 (ucast (ucast (drop_bit 8 v) :: byte))
     OR push_bit 16 (ucast (ucast (drop_bit 16 v) :: byte))
     OR push_bit 24 (ucast (ucast (drop_bit 24 v) :: byte)) :: 32 word) n = bit v n"
    unfolding bit_or_iff bit_byte_at bit_byte_0 using n by (elim disjE conjE) simp_all
qed

lemma be64:
  "ucast (ucast (v::64 word) :: byte) OR push_bit 8 (ucast (ucast (drop_bit 8 v) :: byte))
     OR push_bit 16 (ucast (ucast (drop_bit 16 v) :: byte))
     OR push_bit 24 (ucast (ucast (drop_bit 24 v) :: byte))
     OR push_bit 32 (ucast (ucast (drop_bit 32 v) :: byte))
     OR push_bit 40 (ucast (ucast (drop_bit 40 v) :: byte))
     OR push_bit 48 (ucast (ucast (drop_bit 48 v) :: byte))
     OR push_bit 56 (ucast (ucast (drop_bit 56 v) :: byte)) = v"
proof (rule bit_word_eqI)
  fix n assume "n < LENGTH(64)"
  then have n: "n < 8 \<or> 8 \<le> n \<and> n < 16 \<or> 16 \<le> n \<and> n < 24 \<or> 24 \<le> n \<and> n < 32
    \<or> 32 \<le> n \<and> n < 40 \<or> 40 \<le> n \<and> n < 48 \<or> 48 \<le> n \<and> n < 56 \<or> 56 \<le> n \<and> n < 64"
    by (simp add: not_less) linarith
  show "bit (ucast (ucast (v::64 word) :: byte)
     OR push_bit 8 (ucast (ucast (drop_bit 8 v) :: byte))
     OR push_bit 16 (ucast (ucast (drop_bit 16 v) :: byte))
     OR push_bit 24 (ucast (ucast (drop_bit 24 v) :: byte))
     OR push_bit 32 (ucast (ucast (drop_bit 32 v) :: byte))
     OR push_bit 40 (ucast (ucast (drop_bit 40 v) :: byte))
     OR push_bit 48 (ucast (ucast (drop_bit 48 v) :: byte))
     OR push_bit 56 (ucast (ucast (drop_bit 56 v) :: byte)) :: 64 word) n = bit v n"
    unfolding bit_or_iff bit_byte_at bit_byte_0 using n by (elim disjE conjE) simp_all
qed

lemma Uint32_PutUint32: "4 \<le> length b \<Longrightarrow> Uint32 (PutUint32 b v) = v"
  using less_le_trans [of 0 4 "length b"]
  by (simp add: Uint32_def PutUint32_def be32 nth_list_update)

lemma Uint64_PutUint64: "8 \<le> length b \<Longrightarrow> Uint64 (PutUint64 b v) = v"
  using less_le_trans [of 0 8 "length b"]
  by (simp add: Uint64_def PutUint64_def be64 nth_list_update)

lemma length_PutUint32: "length (PutUint32 b v) = length b"
  by (simp add: PutUint32_def)

lemma length_PutUint64: "length (PutUint64 b v) = length b"
  by (simp add: PutUint64_def)

lemma length_copy_go: "length (copy_go dst src) = length dst"
  by (simp add: copy_go_def)

lemma copy_go_same_length: "length dst = length src \<Longrightarrow> copy_go dst src = src"
  by (simp add: copy_go_def)

lemma length_slice: "hi \<le> length xs \<Longrightarrow> length (slice xs lo hi) = hi - lo"
  by (simp add: slice_def)

lemma length_with_slice:
  assumes "lo + n \<le> length xs" "length (f (slice xs lo (lo + n))) = n"
  shows "length (with_slice f xs lo (lo + n)) = length xs"
  using assms by (simp add: with_slice_def)

lemma slice_with_slice_same:
  assumes "lo + n \<le> length xs" "length (f (slice xs lo (lo + n))) = n"
  shows "slice (with_slice f xs lo (lo + n)) lo (lo + n) = f (slice xs lo (lo + n))"
  using assms by (simp add: with_slice_def slice_def)

lemma slice_with_slice_apart:
  assumes "lo + n \<le> length xs" "length (f (slice xs lo (lo + n))) = n"
    and "apart lo n a k"
  shows "slice (with_slice f xs lo (lo + n)) a (a + k) = slice xs a (a + k)"
  using assms by (auto simp: with_slice_def slice_def apart_def drop_take min_def)

lemma apart_sym: "apart a m b n \<Longrightarrow> apart b n a m"
  by (auto simp: apart_def)

lemma slice_append_shift:
  "slice (pre @ xs) (length pre + lo) (length pre + hi) = slice xs lo hi"
  by (simp add: slice_def)

lemma slice_append_inside:
  "hi \<le> length xs \<Longrightarrow> slice (xs @ post) lo hi = slice xs lo hi"
  by (simp add: slice_def)

lemma length_PutUint32_slice:
  "lo + n \<le> length xs \<Longrightarrow> length (PutUint32 (slice xs lo (lo + n)) v) = n"
  by (simp add: length_PutUint32 length_slice)

lemma length_PutUint64_slice:
  "lo + n \<le> length xs \<Longrightarrow> length (PutUint64 (slice xs lo (lo + n)) v) = n"
  by (simp add: length_PutUint64 length_slice)

lemma length_copy_go_slice:
  "lo + n \<le> length xs \<Longrightarrow> length (copy_go (slice xs lo (lo + n)) src) = n"
  by (simp add: length_copy_go length_slice)

lemmas enc_simps = length_with_slice slice_with_slice_same slice_with_slice_apart
  length_PutUint32_slice length_PutUint64_slice length_copy_go_slice

lemma length_encode:
  assumes "valid_protocol P"
  shows "length (encode P m) = MessageSize P"
  using assms by (simp add: valid_protocol_def encode_def Let_def enc_simps)

lemma encode_Reserved:
  assumes "valid_protocol P"
  shows "slice (encode P m) (ReservedOffset P) (ReservedOffset P + ReservedSize P) = ReservedBytes P"
  using assms
  by (simp add: valid_protocol_def encode_def Let_def enc_simps apart_sym copy_go_same_length length_slice)

lemma encode_From:
  assumes "valid_protocol P"
  shows "Uint32 (slice (encode P m) (FromOffset P) (FromOffset P + FromSize P)) = From m"
  using assms
  by (simp add: valid_protocol_def encode_def Let_def enc_simps apart_sym Uint32_PutUint32 length_slice)

lemma encode_To:
  assumes "valid_protocol P"
  shows "Uint32 (slice (encode P m) (ToOffset P) (ToOffset P + ToSize P)) = To m"
  using assms
  by (simp add: valid_protocol_def encode_def Let_def enc_simps apart_sym Uint32_PutUint32 length_slice)

lemma encode_Id:
  assumes "valid_protocol P"
  shows "Uint64 (slice (encode P m) (IdOffset P) (IdOffset P + IdSize P)) = Id' m"
  using assms
  by (simp add: valid_protocol_def encode_def Let_def enc_simps apart_sym Uint64_PutUint64 length_slice)

lemma encode_Operation:
  assumes "valid_protocol P"
  shows "Uint32 (slice (encode P m) (OperationOffset P) (OperationOffset P + OperationSize P)) = Operation m"
  using assms
  by (simp add: valid_protocol_def encode_def Let_def enc_simps apart_sym Uint32_PutUint32 length_slice)

lemma encode_ContentLength:
  assumes "valid_protocol P"
  shows "Uint64 (slice (encode P m) (ContentLengthOffset P) (ContentLengthOffset P + ContentLengthSize P)) = ContentLength m"
  using assms
  by (simp add: valid_protocol_def encode_def Let_def enc_simps apart_sym Uint64_PutUint64 length_slice)

lemma slice_frame:
  "lo + n \<le> length xs \<Longrightarrow>
     slice (pre @ xs @ post) (length pre + lo) (length pre + lo + n) = slice xs lo (lo + n)"
  by (simp add: slice_def)

lemma slice_after_frame:
  "slice (pre @ xs @ payload @ post) (length pre + length xs) (length pre + length xs + length payload) = payload"
  by (simp add: slice_def)

lemma decode_encode_at:
  assumes "valid_protocol P"
  shows "decode P (pre @ encode P m @ post) (length pre) = m"
proof -
  have len: "length (encode P m) = MessageSize P"
    using assms by (rule length_encode)
  have b: "FromOffset P + FromSize P \<le> length (encode P m)"
    "ToOffset P + ToSize P \<le> length (encode P m)"
    "IdOffset P + IdSize P \<le> length (encode P m)"
    "OperationOffset P + OperationSize P \<le> length (encode P m)"
    "ContentLengthOffset P + ContentLengthSize P \<le> length (encode P m)"
    using assms unfolding len by (simp_all add: valid_protocol_def)
  show ?thesis
    unfolding decode_def
    by (simp add: slice_frame b encode_From [OF assms] encode_To [OF assms] encode_Id [OF assms]
        encode_Operation [OF assms] encode_ContentLength [OF assms])
qed

lemma reserved_ok_encode_at:
  assumes "valid_protocol P"
  shows "reserved_ok P (pre @ encode P m @ post) (length pre)"
proof -
  have "ReservedOffset P + ReservedSize P \<le> length (encode P m)"
    using assms by (simp add: length_encode valid_protocol_def)
  then show ?thesis
    unfolding reserved_ok_def by (simp add: slice_frame encode_Reserved [OF assms])
qed

lemma valid_spec_protocol: "valid_protocol (spec_protocol rb)"
  by (simp add: valid_protocol_def spec_protocol_def apart_def)

section \<open>The buffered writer\<close>

lemma sent_bytes_append: "sent_bytes (xs @ ys) = sent_bytes xs @ sent_bytes ys"
  by (induction xs rule: sent_bytes.induct) simp_all

lemma bufio_Flush_wire:
  "bufio_Flush b s = (b', s', None) \<Longrightarrow> wire b' s' = wire b s \<and> werr b' = None"
  by (auto simp: bufio_Flush_def conn_Write_def wire_def sent_bytes_append
      split: option.splits if_splits)

lemma bufio_Flush_err:
  "bufio_Flush b s = (b', s', Some e) \<Longrightarrow> werr b' \<noteq> None"
  by (auto simp: bufio_Flush_def conn_Write_def split: option.splits if_splits)

lemma bufio_Write_werr:
  "werr b = Some e \<Longrightarrow> bufio_Write b s p = (b, s, Some e)"
  by (subst bufio_Write.simps) simp

lemma bufio_Write_wire:
  "bufio_Write b s p = (b', s', None) \<Longrightarrow> wire b' s' = wire b s @ p"
proof (induction b s p rule: bufio_Write.induct)
  case (1 b s p)
  show ?case
  proof (cases "length p > bufio_Available b \<and> werr b = None")
    case False
    with "1.prems" show ?thesis
      by (subst (asm) bufio_Write.simps) (auto simp: wire_def split: option.splits)
  next
    case over: True
    show ?thesis
    proof (cases "bufio_Buffered b = 0")
      case True
      obtain s1 k e where cw: "conn_Write s p = (s1, k, e)"
        by (cases "conn_Write s p") auto
      from "1.prems" over True cw
      have w: "bufio_Write (b\<lparr>werr := e\<rparr>) s1 (drop k p) = (b', s', None)"
        by (subst (asm) bufio_Write.simps) simp
      have "e = None"
      proof (rule ccontr)
        assume "e \<noteq> None"
        then obtain x where "e = Some x" by auto
        with w bufio_Write_werr [of "b\<lparr>werr := e\<rparr>" x s1 "drop k p"] show False by simp
      qed
      with cw have s1: "s1 = s\<lparr>ops := ops s @ [OpWrite p]\<rparr>" "k = length p"
        by (auto simp: conn_Write_def split: option.splits)
      from "1.IH"(1) [OF over True cw [symmetric] refl w]
      have "wire b' s' = wire (b\<lparr>werr := e\<rparr>) s1 @ drop k p" .
      with s1 True show ?thesis
        by (simp add: wire_def sent_bytes_append bufio_Buffered_def)
    next
      case False
      define k where "k = min (bufio_Available b) (length p)"
      define b1 where "b1 = b\<lparr>wbuf := wbuf b @ take k p\<rparr>"
      obtain b2 s1 e where fl: "bufio_Flush b1 s = (b2, s1, e)"
        by (cases "bufio_Flush b1 s") auto
      from "1.prems" over False fl
      have w: "bufio_Write b2 s1 (drop k p) = (b', s', None)"
        by (subst (asm) bufio_Write.simps) (simp add: Let_def k_def b1_def)
      have "e = None"
      proof (rule ccontr)
        assume "e \<noteq> None"
        then obtain x where "e = Some x" by auto
        with fl bufio_Flush_err obtain y where "werr b2 = Some y" by blast
        with w bufio_Write_werr [of b2 y s1 "drop k p"] show False by simp
      qed
      with fl have f: "wire b2 s1 = wire b1 s"
        by (simp add: bufio_Flush_wire)
      from "1.IH"(2) [OF over False k_def b1_def fl [symmetric] refl w]
      have "wire b' s' = wire b2 s1 @ drop k p" .
      with f show ?thesis
        by (simp add: wire_def b1_def)
    qed
  qed
qed

section \<open>Signed and unsigned lengths\<close>

lemma sint_eq_length:
  assumes "sint (w :: 64 word) = int k" shows "unat w = k"
proof -
  have "sint w < 2 ^ 63" using sint_lt [of w] by simp
  with assms have "take_bit 64 (sint w) = sint w"
    by (simp add: take_bit_int_eq_self)
  with assms uint_sint [of w] have "uint w = int k" by simp
  then have "nat (uint w) = k" by simp
  then show ?thesis by (simp only: unat_eq_nat_uint)
qed

lemma length_eq_sint:
  assumes "unat (w :: 64 word) = k" "k < 2 ^ 63" shows "sint w = int k"
proof -
  have "uint w = int k" using assms(1) by auto
  moreover have "int k < 2 ^ 63" using assms(2) by simp
  ultimately have "signed_take_bit 63 (uint w) = uint w"
    by (simp add: signed_take_bit_int_eq_self)
  with \<open>uint w = int k\<close> sint_uint [of w] show ?thesis by simp
qed

section \<open>The invariant of the connection\<close>

lemma after_Done: "after x I \<Longrightarrow> x = Done (c, a) \<Longrightarrow> I c"
  by (simp add: after_def)

lemma after_Blocks: "after x I \<Longrightarrow> x = Blocks c \<Longrightarrow> I c"
  by (simp add: after_def)

lemma after_simps:
  "after (Done (c, a)) I = I c" "after (Blocks c) I = I c" "after Panics I = True"
  by (simp_all add: after_def)

lemma after_and_then:
  assumes "after x I" and "\<And>c a. x = Done (c, a) \<Longrightarrow> I c \<Longrightarrow> after (f (c, a)) I"
  shows "after (and_then x f) I"
  using assms by (cases x) (auto simp: after_def and_then_def)

lemma inv_New: "conn_inv (New s)"
  by (simp add: conn_inv_def New_def make_chan_def)

lemma inv_frame:
  "conn_inv c \<Longrightarrow> conn_inv (c\<lparr>writer := w, conn := s\<rparr>)"
  "conn_inv c \<Longrightarrow> conn_inv (c\<lparr>conn := s\<rparr>)"
  "conn_inv c \<Longrightarrow> conn_inv (c\<lparr>incomingMessages := q\<rparr>)"
  by (simp_all add: conn_inv_def)

lemma inv_pause: "conn_inv c \<Longrightarrow> after (pause g c) conn_inv"
  by (cases "state c")
     (auto simp: pause_def killGoroutines_def and_then_def conn_inv_def after_def Let_def)

lemma inv_close: "conn_inv c \<Longrightarrow> after (close g c) conn_inv"
  by (cases "state c")
     (auto simp: close_def killGoroutines_def and_then_def conn_inv_def after_def Let_def
        split: prod.splits)

lemma close_state: "close g c = Done (c', r) \<Longrightarrow> state c' = CLOSED"
  by (cases "state c") (auto simp: close_def killGoroutines_def and_then_def Let_def
      split: if_splits prod.splits)

lemma inv_closeWithError:
  assumes "conn_inv c" shows "after (closeWithError g c e) conn_inv"
proof -
  have p: "after (and_then (pause g c)
         (\<lambda>(c1, pauseError).
            if errors_Is pauseError ConnectionNotInitialized
            then Done (c1, Some ConnectionNotInitialized)
            else Done (c1, Some ConnectionPaused))) conn_inv"
    by (rule after_and_then [OF inv_pause [OF assms]]) (simp add: after_simps)
  have c: "after (and_then (close g c)
         (\<lambda>(c1, closeError).
            if errors_Is closeError ConnectionClosed then Done (c1, Some ConnectionClosed)
            else Done (c1\<lparr>error := Some e, conn := conn_Close (conn c1)\<rparr>, Some e))) conn_inv"
  proof (rule after_and_then [OF inv_close [OF assms]])
    fix c1 a assume "close g c = Done (c1, a)" "conn_inv c1"
    then show "after (case (c1, a) of (c1, closeError) \<Rightarrow>
            if errors_Is closeError ConnectionClosed then Done (c1, Some ConnectionClosed)
            else Done (c1\<lparr>error := Some e, conn := conn_Close (conn c1)\<rparr>, Some e)) conn_inv"
      using close_state [of g c c1 a] by (auto simp: after_simps conn_inv_def)
  qed
  show ?thesis
    using assms p c by (simp add: closeWithError_def after_simps)
qed

lemma inv_write_failed: "conn_inv c \<Longrightarrow> after (write_failed c e) conn_inv"
  by (simp add: write_failed_def after_simps inv_closeWithError)

lemma wake_Some: "wake f = Some f' \<Longrightarrow> chclosed f' = chclosed f"
  by (auto simp: wake_def split: if_splits)

lemma inv_wake_and_return: "conn_inv c \<Longrightarrow> after (wake_and_return c) conn_inv"
  by (auto simp: wake_and_return_def after_simps conn_inv_def dest: wake_Some split: option.splits)

lemma inv_WriteMessage:
  assumes "conn_inv c" shows "after (WriteMessage P c m content) conn_inv"
  using assms inv_write_failed [OF inv_frame(1) [OF assms]]
    inv_wake_and_return [OF inv_frame(1) [OF assms]]
  by (auto simp: WriteMessage_def Let_def after_simps split: prod.splits option.splits)

lemma inv_ReadMessage:
  assumes "conn_inv c" shows "after (ReadMessage c) conn_inv"
proof -
  have "after (and_then (closeWithError Application (c\<lparr>incomingMessages := q\<rparr>) err)
                    (\<lambda>(c2, e). Done (c2, Inl (Some (WithContext e ''POP''))))) conn_inv" for q err
    by (rule after_and_then [OF inv_closeWithError [OF inv_frame(3) [OF assms]]])
       (simp add: after_simps)
  then show ?thesis
    using assms inv_frame(3) [OF assms]
    by (auto simp: ReadMessage_def Let_def after_simps split: option.splits sum.splits)
qed

lemma inv_Flush:
  assumes "conn_inv c" shows "after (Flush c) conn_inv"
proof -
  have "after (and_then (closeWithError Application (c\<lparr>writer := w, conn := s\<rparr>) e)
              (\<lambda>(c1, _). Done (c1, Some e))) conn_inv" for w s e
    by (rule after_and_then [OF inv_closeWithError [OF inv_frame(1) [OF assms]]])
       (simp add: after_simps)
  then show ?thesis
    using assms inv_frame(1) [OF assms]
    by (auto simp: Flush_def after_simps split: prod.splits option.splits)
qed

lemma inv_Raw: "conn_inv c \<Longrightarrow> after (Raw c) conn_inv"
  unfolding Raw_def
  by (rule after_and_then [OF inv_close]) (auto simp: after_simps)

lemma inv_Close: "conn_inv c \<Longrightarrow> after (Close c) conn_inv"
  unfolding Close_def
  by (rule after_and_then [OF inv_close]) (auto simp: after_simps intro: inv_frame(2))

lemma inv_flushLoop_step:
  assumes "conn_inv c" shows "after (flushLoop_step c) conn_inv"
proof -
  let ?c0 = "c\<lparr>flusher := (flusher c)\<lparr>chlen := chlen (flusher c) - 1\<rparr>\<rparr>"
  have f: "conn_inv ?c0"
    using assms by (simp add: conn_inv_def)
  have "after (and_then (closeWithError FlushLoop (?c0\<lparr>writer := w, conn := s\<rparr>) e)
                 (\<lambda>(c1, _). Done (c1, True))) conn_inv" for w s e
    by (rule after_and_then [OF inv_closeWithError [OF inv_frame(1) [OF f]]])
       (simp add: after_simps)
  then show ?thesis
    using assms f inv_frame(1) [OF f]
    by (auto simp: flushLoop_step_def Let_def after_simps split: prod.splits option.splits)
qed

lemma inv_push_packet:
  assumes "conn_inv c" shows "after (push_packet c packet k) conn_inv"
proof -
  have "after (and_then (closeWithError ReadLoop (c\<lparr>incomingMessages := q\<rparr>) e)
           (\<lambda>(c1, _). Done (c1, Return))) conn_inv" for q e
    by (rule after_and_then [OF inv_closeWithError [OF inv_frame(3) [OF assms]]])
       (simp add: after_simps)
  then show ?thesis
    using assms inv_frame(3) [OF assms]
    by (auto simp: push_packet_def after_simps split: prod.splits option.splits)
qed

lemma inv_streamclose:
  assumes "conn_inv c"
  shows "conn_inv (c\<lparr> heap := (heap c)[a := x], streamConns := (streamConns c)(i := None) \<rparr>)"
  using assms by (auto simp: conn_inv_def)

lemma inv_readLoop_frame:
  assumes "conn_inv c" shows "after (readLoop_frame P Q c buf index n) conn_inv"
  using assms inv_push_packet [OF assms] inv_streamclose [OF assms]
  by (auto simp: readLoop_frame_def Let_def after_simps split: option.splits)

lemma inv_NewStreamConn:
  assumes "conn_inv c" "NewStreamConn c i = (c', a)" shows "conn_inv c'"
  using assms by (auto simp: NewStreamConn_def Let_def conn_inv_def less_Suc_eq split: if_splits)

lemma inv_heap_closed:
  "conn_inv c \<Longrightarrow> conn_inv (c\<lparr>heap := (heap c)[a := x]\<rparr>)"
  by (auto simp: conn_inv_def)

lemma inv_StreamConn_Close:
  assumes "conn_inv c" shows "after (StreamConn_Close P Q c a) conn_inv"
  using inv_WriteMessage [OF inv_heap_closed [OF assms]]
  by (simp add: StreamConn_Close_def after_simps)

lemma inv_StreamConn_Write:
  assumes "conn_inv c" shows "after (StreamConn_Write P Q c a p) conn_inv"
proof -
  have 1: "after (and_then (write_failed (c\<lparr>writer := w, conn := s\<rparr>) e)
                (\<lambda>(c1, err). Done (c1, 0 :: nat, err))) conn_inv" for w s e
    by (rule after_and_then [OF inv_write_failed [OF inv_frame(1) [OF assms]]])
       (simp add: after_simps)
  have 2: "after (and_then (wake_and_return (c\<lparr>writer := w, conn := s\<rparr>))
                     (\<lambda>(c1, _). Done (c1, length p, None :: error option))) conn_inv" for w s
    by (rule after_and_then [OF inv_wake_and_return [OF inv_frame(1) [OF assms]]])
       (simp add: after_simps)
  show ?thesis
    using assms 1 2
    by (auto simp: StreamConn_Write_def Let_def after_simps split: prod.splits option.splits)
qed

lemma reachable_inv: "reachable P Q c \<Longrightarrow> conn_inv c"
proof (induction rule: reachable.induct)
  case (r_New s)
  show ?case by (rule inv_New)
next
  case (r_stream c e)
  then show ?case by (simp add: conn_inv_def)
next
  case (r_WriteMessage c m content c' r)
  then show ?case using after_Done [OF inv_WriteMessage] by blast
next
  case (r_ReadMessage c c' x)
  then show ?case using after_Done [OF inv_ReadMessage] by blast
next
  case (r_Flush c c' r)
  then show ?case using after_Done [OF inv_Flush] by blast
next
  case (r_Raw c c' y)
  then show ?case using after_Done [OF inv_Raw] by blast
next
  case (r_Close c c' r)
  then show ?case using after_Done [OF inv_Close] by blast
next
  case (r_closeWithError c g e' c' r)
  then show ?case using after_Done [OF inv_closeWithError] by blast
next
  case (r_closeWithError_blocks c g e' c')
  then show ?case using after_Blocks [OF inv_closeWithError] by blast
next
  case (r_flushLoop c c' b)
  then show ?case using after_Done [OF inv_flushLoop_step] by blast
next
  case (r_flushLoop_blocks c c')
  then show ?case using after_Blocks [OF inv_flushLoop_step] by blast
next
  case (r_readLoop c buf index n c' k)
  then show ?case using after_Done [OF inv_readLoop_frame] by blast
next
  case (r_readLoop_blocks c buf index n c')
  then show ?case using after_Blocks [OF inv_readLoop_frame] by blast
next
  case (r_NewStreamConn c i c' a)
  then show ?case by (blast intro: inv_NewStreamConn)
next
  case (r_StreamConn_Close c a c' r)
  then show ?case using after_Done [OF inv_StreamConn_Close] by blast
next
  case (r_StreamConn_Write c a p c' l r)
  then show ?case using after_Done [OF inv_StreamConn_Write] by blast
next
  case (r_incomingBuffer c a b')
  then show ?case by (blast intro: inv_heap_closed)
next
  case (r_StreamConnCh c l')
  then show ?case by (simp add: conn_inv_def)
next
  case (r_Push c packet q)
  then show ?case by (blast intro: inv_frame(3))
qed

section \<open>Closing and pausing, step by step\<close>

lemma reachable_error: "reachable P Q c \<Longrightarrow> \<exists>e. Error c = Some e"
  using reachable_inv [of P Q c] by (auto simp: conn_inv_def Error_def)

lemma pause_connected:
  assumes "state c = CONNECTED" "\<not> chclosed (flusher c)"
  shows "pause Application c = Done (c\<lparr> state := PAUSED, error := Some ConnectionPaused,
            incomingMessages := rb_Close (incomingMessages c),
            flusher := (flusher c)\<lparr>chclosed := True\<rparr>,
            conn := conn_SetReadDeadline (conn_SetReadDeadline (conn c) True) False \<rparr>, None)"
  using assms by (simp add: pause_def killGoroutines_def and_then_def Let_def)

lemma closeWithError_EOF_connected:
  assumes "state c = CONNECTED" "\<not> chclosed (flusher c)"
  shows "closeWithError Application c EOF =
    Done (c\<lparr> state := PAUSED, error := Some ConnectionPaused,
            incomingMessages := rb_Close (incomingMessages c),
            flusher := (flusher c)\<lparr>chclosed := True\<rparr>,
            conn := conn_SetReadDeadline (conn_SetReadDeadline (conn c) True) False \<rparr>,
          Some ConnectionPaused)"
  using assms by (simp add: closeWithError_def os_IsTimeout_def pause_connected and_then_def)

lemma close_connected:
  assumes "state c = CONNECTED" "\<not> chclosed (flusher c)"
  shows "\<exists>c1. close Application c = Done (c1, None) \<and> state c1 = CLOSED \<and>
           error c1 = Some ConnectionClosed \<and>
           rbclosed (incomingMessages c1) \<and> chclosed (flusher c1) \<and>
           heap c1 = heap c \<and> streamConns c1 = streamConns c"
  using assms
  by (auto simp: close_def killGoroutines_def and_then_def rb_Close_def Let_def
      split: prod.splits)

text \<open>
  A worker that wins the transition out of \<open>CONNECTED\<close> waits for its own return: its
  call blocks, after the state and the last-error cell have been written and the queue
  and the channel closed.
\<close>

lemma pause_worker:
  assumes "state c = CONNECTED" "\<not> chclosed (flusher c)" "g \<noteq> Application"
  shows "pause g c = Blocks (c\<lparr> state := PAUSED, error := Some ConnectionPaused,
            incomingMessages := rb_Close (incomingMessages c),
            flusher := (flusher c)\<lparr>chclosed := True\<rparr>,
            conn := conn_SetReadDeadline (conn c) True \<rparr>)"
  using assms by (simp add: pause_def killGoroutines_def and_then_def Let_def)

lemma close_worker:
  assumes "state c = CONNECTED" "\<not> chclosed (flusher c)" "g \<noteq> Application"
  shows "close g c = Blocks (c\<lparr> state := CLOSED, error := Some ConnectionClosed,
            incomingMessages := rb_Close (incomingMessages c),
            flusher := (flusher c)\<lparr>chclosed := True\<rparr>,
            conn := conn_SetReadDeadline (conn c) True \<rparr>)"
  using assms by (simp add: close_def killGoroutines_def and_then_def Let_def)

lemma closeWithError_worker:
  assumes "state c = CONNECTED" "\<not> chclosed (flusher c)" "g \<noteq> Application"
    and "\<not> os_IsTimeout e"
  shows "closeWithError g c e =
    Blocks (c\<lparr> state := (if errors_Is (Some e) EOF \<or> errors_Is (Some e) ErrClosedPipe
                          then PAUSED else CLOSED),
              error := (if errors_Is (Some e) EOF \<or> errors_Is (Some e) ErrClosedPipe
                          then Some ConnectionPaused else Some ConnectionClosed),
              incomingMessages := rb_Close (incomingMessages c),
              flusher := (flusher c)\<lparr>chclosed := True\<rparr>,
              conn := conn_SetReadDeadline (conn c) True \<rparr>)"
  using assms(4) pause_worker [OF assms(1,2,3)] close_worker [OF assms(1,2,3)]
  by (simp add: closeWithError_def and_then_def)

section \<open>The sample connections\<close>

lemma reachable_sample_conn: "reachable P Q sample_conn"
  unfolding sample_conn_def
  by (rule r_NewStreamConn [OF r_New]) (rule prod.collapse [symmetric])

lemma sample_conn_facts:
  "state sample_conn = CONNECTED" "\<not> chclosed (flusher sample_conn)"
  "heap sample_conn = [\<lparr> id' = 7, incomingBuffer = [], closed = False \<rparr>]"
  by (simp_all add: sample_conn_def NewStreamConn_def New_def make_chan_def)

lemma closeWithError_sample_conn:
  "closeWithError Application sample_conn EOF = Done (sample_paused, Some ConnectionPaused)"
  unfolding sample_paused_def
  by (rule closeWithError_EOF_connected) (rule sample_conn_facts)+

lemma reachable_sample_paused: "reachable P Q sample_paused"
  by (rule r_closeWithError [OF reachable_sample_conn closeWithError_sample_conn])

lemma sample_paused_facts:
  "state sample_paused = PAUSED" "Error sample_paused = Some ConnectionPaused"
  "heap sample_paused = [\<lparr> id' = 7, incomingBuffer = [], closed = False \<rparr>]"
  by (simp_all add: sample_paused_def sample_conn_facts Error_def)

section \<open>Calls that return\<close>

lemma close_closed: "state c = CLOSED \<Longrightarrow> close g c = Done (c, Some ConnectionClosed)"
  by (simp add: close_def)

lemma Close_closed: "state c = CLOSED \<Longrightarrow> Close c = Done (c, None)"
  by (simp add: Close_def close_closed and_then_def)

lemma close_paused:
  "state c = PAUSED \<Longrightarrow>
     close g c = Done (c\<lparr>state := CLOSED, error := Some ConnectionClosed\<rparr>, None)"
  by (simp add: close_def)

lemma wake_open: "\<not> chclosed f \<Longrightarrow> \<exists>f'. wake f = Some f'"
  by (simp add: wake_def)

lemma closeWithError_connected_result:
  assumes "state c = CONNECTED" "\<not> chclosed (flusher c)"
  shows "\<exists>c'. closeWithError Application c e = Done (c', Some e) \<or>
              closeWithError Application c e = Done (c', Some ConnectionPaused)"
proof -
  from close_connected [OF assms] obtain c1 where "close Application c = Done (c1, None)"
    by blast
  then show ?thesis
    using pause_connected [OF assms]
    by (auto simp: closeWithError_def and_then_def)
qed

lemma bufio_Write_fits:
  assumes "length p \<le> bufio_Available b" "werr b = None"
  shows "bufio_Write b s p = (b\<lparr>wbuf := wbuf b @ p\<rparr>, s, None)"
  using assms by (subst bufio_Write.simps) simp

lemma close_total: "conn_inv c \<Longrightarrow> \<exists>c' r. close Application c = Done (c', r)"
  by (cases "state c") (auto simp: close_paused close_closed conn_inv_def dest: close_connected)

lemma Close_total: "conn_inv c \<Longrightarrow> \<exists>c' r. Close c = Done (c', r)"
  by (auto simp: Close_def and_then_def dest!: close_total)

lemma Client_Close_total: "conn_inv (conn' cl) \<Longrightarrow> \<exists>cl' r. Client_Close cl = Done (cl', r)"
  by (auto simp: Client_Close_def and_then_def dest!: Close_total)

lemma closeWithError_total:
  assumes "conn_inv c" shows "\<exists>c' r. closeWithError Application c e = Done (c', r)"
proof (cases "state c = CONNECTED")
  case True
  with assms have "\<not> chclosed (flusher c)" by (simp add: conn_inv_def)
  from closeWithError_connected_result [OF True this, of e] show ?thesis by blast
next
  case False
  then have "\<exists>c' r. pause Application c = Done (c', r)" by (simp add: pause_def)
  moreover have "\<exists>c' r. close Application c = Done (c', r)" using assms by (rule close_total)
  ultimately show ?thesis
    by (auto simp: closeWithError_def and_then_def)
qed

lemma wake_and_return_open:
  "\<not> chclosed (flusher c) \<Longrightarrow> \<exists>f. wake (flusher c) = Some f \<and>
      wake_and_return c = Done (c\<lparr>flusher := f\<rparr>, None)"
  by (auto simp: wake_and_return_def dest: wake_open)

lemma WriteMessage_total:
  assumes "conn_inv c" shows "\<exists>c' r. WriteMessage P c m content = Done (c', r)"
proof (cases "state c = CONNECTED")
  case False
  then show ?thesis by (simp add: WriteMessage_def Let_def)
next
  case True
  with assms have f: "\<not> chclosed (flusher c)" by (simp add: conn_inv_def)
  have wr: "\<exists>c' r. wake_and_return (c\<lparr>writer := w, conn := s\<rparr>) = Done (c', r)" for w s
    using wake_and_return_open [of "c\<lparr>writer := w, conn := s\<rparr>"] f by auto
  have cw: "\<exists>c' r. closeWithError Application (c\<lparr>writer := w, conn := s\<rparr>) e = Done (c', r)"
    for w s e
    using closeWithError_total [OF inv_frame(1) [OF assms]] by blast
  show ?thesis
    using True wr cw
    by (auto simp: WriteMessage_def Let_def write_failed_def split: prod.splits option.splits)
qed

lemma word_eq_of_nat_length:
  assumes "k < 2 ^ 64" shows "((w :: 64 word) = of_nat k) = (unat w = k)"
proof
  assume "w = of_nat k"
  with assms show "unat w = k" by (simp add: unat_of_nat)
next
  assume "unat w = k"
  then show "w = of_nat k" by auto
qed

lemma and_then_Done: "and_then (Done a) f = f a"
  by (simp add: and_then_def)

text \<open>
  A successful \<^verbatim>\<open>WriteMessage\<close> puts the encoded header and then the content on the way
  to the peer, and nothing else.
\<close>

lemma write_failed_error:
  assumes "conn_inv c" "state c = CONNECTED" "write_failed c e = Done (c', r)"
  shows "r \<noteq> None"
proof -
  have "\<not> chclosed (flusher c)" using assms(1,2) by (simp add: conn_inv_def)
  from closeWithError_connected_result [OF assms(2) this, of e] assms(2,3)
  show ?thesis by (auto simp: write_failed_def)
qed

lemma WriteMessage_wire:
  assumes "conn_inv c" and "state c = CONNECTED"
    and "WriteMessage P c message content = Done (c', None)"
  shows "wire (writer c') (conn c') =
    wire (writer c) (conn c) @ encode P message @ (case content of None \<Rightarrow> [] | Some p \<Rightarrow> p)"
proof -
  have wf: "write_failed (c\<lparr>writer := w, conn := s\<rparr>) e \<noteq> Done (c', None)" for w s e
    using write_failed_error [OF inv_frame(1) [OF assms(1), where w = w and s = s], of e c' None]
      assms(2)
    by auto
  show ?thesis
    using assms(2,3) wf
    by (auto simp: WriteMessage_def Let_def wake_and_return_def
        split: if_splits prod.splits option.splits
        dest!: bufio_Write_wire)
qed

text \<open>
  \<^verbatim>\<open>closeWithError\<close> on a reachable connection in state \<open>CONNECTED\<close>, called by a goroutine
  other than the two workers: a timeout error is returned as it is and nothing changes
  (whoever calls); for \<open>EOF\<close> or a closed pipe the state becomes \<open>PAUSED\<close> and
  \<open>ConnectionPaused\<close> is returned; for every other error the state becomes \<open>CLOSED\<close>, the
  error is stored in the last-error cell and returned.
\<close>

lemma closeWithError_application:
  assumes "reachable P Q c" and "state c = CONNECTED"
  shows "(os_IsTimeout e \<longrightarrow> closeWithError g c e = Done (c, Some e)) \<and>
         (\<not> os_IsTimeout e \<and> (errors_Is (Some e) EOF \<or> errors_Is (Some e) ErrClosedPipe) \<longrightarrow>
            (\<exists>c'. closeWithError Application c e = Done (c', Some ConnectionPaused) \<and>
                  state c' = PAUSED)) \<and>
         (\<not> os_IsTimeout e \<and> \<not> errors_Is (Some e) EOF \<and> \<not> errors_Is (Some e) ErrClosedPipe \<longrightarrow>
            (\<exists>c'. closeWithError Application c e = Done (c', Some e) \<and> state c' = CLOSED
                  \<and> Error c' = Some e))"
proof -
  have f: "\<not> chclosed (flusher c)"
    using reachable_inv [OF assms(1)] assms(2) by (simp add: conn_inv_def)
  have 1: "os_IsTimeout e \<longrightarrow> closeWithError g c e = Done (c, Some e)"
    by (simp add: closeWithError_def)
  have 2: "\<not> os_IsTimeout e \<and> (errors_Is (Some e) EOF \<or> errors_Is (Some e) ErrClosedPipe) \<longrightarrow>
            (\<exists>c'. closeWithError Application c e = Done (c', Some ConnectionPaused) \<and>
                  state c' = PAUSED)"
    using pause_connected [OF assms(2) f]
    by (auto simp: closeWithError_def and_then_def)
  have 3: "\<not> os_IsTimeout e \<and> \<not> errors_Is (Some e) EOF \<and> \<not> errors_Is (Some e) ErrClosedPipe \<longrightarrow>
            (\<exists>c'. closeWithError Application c e = Done (c', Some e) \<and> state c' = CLOSED
                  \<and> Error c' = Some e)"
    using close_connected [OF assms(2) f]
    by (auto simp: closeWithError_def and_then_def Error_def)
  from 1 2 3 show ?thesis by blast
qed

text \<open>
  Closing a connection flushes what the writer holds and sends nothing new: the bytes on
  their way to the peer are the same before and after. A turn of the router loop ends
  with the action that the handler returned.
\<close>

lemma bufio_Flush_wire_any:
  "bufio_Flush b s = (b', s', e) \<Longrightarrow> wire b' s' = wire b s"
  by (auto simp: bufio_Flush_def conn_Write_def wire_def sent_bytes_append
      split: option.splits if_splits)

lemma wire_ops_other:
  "wire w (conn_SetReadDeadline s t) = wire w s" "wire w (conn_Close s) = wire w s"
  by (simp_all add: wire_def conn_SetReadDeadline_def conn_Close_def sent_bytes_append)

lemma close_wire:
  assumes "close g c = Done (c', r)"
  shows "wire (writer c') (conn c') = wire (writer c) (conn c)"
proof (cases "state c")
  case CONNECTED
  with assms show ?thesis
    by (auto simp: close_def killGoroutines_def and_then_def Let_def wire_ops_other
        split: if_splits prod.splits dest!: bufio_Flush_wire_any)
next
  case CLOSED
  with assms show ?thesis by (auto simp: close_def)
next
  case PAUSED
  with assms show ?thesis by (auto simp: close_def)
qed

lemma Close_wire:
  assumes "Close c = Done (c', r)"
  shows "wire (writer c') (conn c') = wire (writer c) (conn c)"
  using assms
  by (auto simp: Close_def and_then_def wire_ops_other split: outcome.splits if_splits
      dest!: close_wire)

lemma Client_Close_conn:
  assumes "Client_Close cl = Done (cl', r)"
  shows "wire (writer (conn' cl')) (conn (conn' cl')) = wire (writer (conn' cl)) (conn (conn' cl))"
  using assms
  by (auto simp: Client_Close_def and_then_def split: outcome.splits dest!: Close_wire)

lemma WriteMessage_nil_connected:
  assumes "conn_inv c" "WriteMessage P c message content = Done (c', None)"
  shows "state c = CONNECTED"
proof (rule ccontr)
  assume "state c \<noteq> CONNECTED"
  with assms(2) have "Error c = None"
    by (auto simp: WriteMessage_def Let_def split: if_splits)
  with assms(1) show False by (simp add: conn_inv_def Error_def)
qed

text \<open>The end of a turn of the router loop: the action that the handler has returned.\<close>

lemma act_result:
  assumes "conn_inv (conn' cl1)"
  shows "\<exists>cl2 cont.
    (case action of
       CLOSE \<Rightarrow> and_then (Client_Close cl1) (\<lambda>(cl2, _). Done (cl2, evs, False))
     | SHUTDOWN \<Rightarrow> and_then (Client_Close cl1) (\<lambda>(cl2, _). Done (cl2, evs, False))
     | NONE \<Rightarrow> Done (cl1, evs, True)) = Done (cl2, evs, cont) \<and>
    (cont \<longleftrightarrow> action = NONE) \<and> (cont \<longrightarrow> cl2 = cl1) \<and>
    (\<not> cont \<longrightarrow> (\<exists>e. Client_Close cl1 = Done (cl2, e))) \<and>
    wire (writer (conn' cl2)) (conn (conn' cl2)) = wire (writer (conn' cl1)) (conn (conn' cl1))"
proof -
  from Client_Close_total [OF assms] obtain cl2 e where c: "Client_Close cl1 = Done (cl2, e)"
    by blast
  show ?thesis
    using c Client_Close_conn [OF c]
    by (cases action) (auto simp: and_then_def)
qed

section \<open>The round trip of header and content\<close>

lemma push_packet_open:
  assumes "\<not> rbclosed (incomingMessages c)"
    and "length (items (incomingMessages c)) < capacity (incomingMessages c)"
  shows "push_packet c packet k =
    Done (c\<lparr>incomingMessages := (incomingMessages c)\<lparr>items := items (incomingMessages c) @ [packet]\<rparr>\<rparr>, k)"
  using assms by (simp add: push_packet_def rb_Push_def)

lemma readLoop_frame_delivers:
  assumes v: "valid_protocol P" and l: "length payload = unat (ContentLength header)"
    and op: "Operation header \<noteq> STREAMCLOSE Q" "Operation header \<noteq> STREAM Q"
    and ne: "payload \<noteq> []" and go: "length payload < 2 ^ 63"
    and q: "\<not> rbclosed (incomingMessages c)"
      "length (items (incomingMessages c)) < capacity (incomingMessages c)"
    and n: "length pre + MessageSize P + length payload \<le> n"
  shows "readLoop_frame P Q c (pre @ encode P header @ payload @ post) (length pre) n =
    Done (c\<lparr>incomingMessages := (incomingMessages c)\<lparr>items := items (incomingMessages c) @
                 [\<lparr> Message' = header, Content = Some payload \<rparr>]\<rparr>\<rparr>,
          READ (length pre + MessageSize P + length payload))"
proof -
  let ?buf = "pre @ encode P header @ payload @ post"
  have le: "length (encode P header) = MessageSize P"
    using v by (rule length_encode)
  have g1: "\<not> length ?buf < length pre + ReservedOffset P + ReservedSize P"
    using v le by (simp add: valid_protocol_def)
  have g2: "reserved_ok P ?buf (length pre)"
    using v by (rule reserved_ok_encode_at)
  have g3: "fields_in P ?buf (length pre)"
    using v le by (simp add: valid_protocol_def fields_in_def)
  have d: "decode P ?buf (length pre) = header"
    using v by (rule decode_encode_at)
  have s: "sint (ContentLength header) = int (length payload)"
    using l [symmetric] go by (rule length_eq_sint)
  have "ContentLength header \<noteq> 0"
  proof
    assume "ContentLength header = 0"
    then have "unat (ContentLength header) = 0" by simp
    with l ne show False by simp
  qed
  then have pos: "0 < ContentLength header"
    by (simp add: word_greater_zero_iff)
  have k: "nat (sint (ContentLength header)) = length payload"
    using s by simp
  have sl: "slice ?buf (length pre + MessageSize P) (length pre + MessageSize P + length payload)
      = payload"
    using slice_after_frame [of pre "encode P header" payload post] by (simp add: le)
  have cp: "copy_go (replicate (length payload) (0 :: byte)) payload = payload"
    by (rule copy_go_same_length) simp
  show ?thesis
    unfolding readLoop_frame_def
    using g1 g2 g3 op pos n
    by (simp add: d Let_def s k sl cp le push_packet_open [OF q])
qed

text \<open>
  Claim C1. Let the content have as many bytes as the header's \<open>ContentLength\<close> says, and
  let the bytes that \<^verbatim>\<open>WriteMessage\<close> hands to the writer, the encoded header followed by
  the content, stand at position \<open>length pre\<close> of the reader's buffer. Then the reader
  accepts the reserved bytes, decodes a header equal to the one encoded (in \<open>From\<close>, \<open>To\<close>,
  \<open>Id\<close>, \<open>Operation\<close> and \<open>ContentLength\<close>), and the \<open>ContentLength\<close> bytes behind the
  header are the content. When moreover the operation is neither \<open>STREAM\<close> nor
  \<open>STREAMCLOSE\<close>, the content is not empty, all its bytes have been read and the incoming
  queue is open and has room, the reader pushes the packet made of that header and that
  content.
\<close>

theorem header_payload_roundtrip:
  assumes "valid_protocol P" and "length payload = unat (ContentLength header)"
  shows "reserved_ok P (pre @ encode P header @ payload @ post) (length pre) \<and>
         decode P (pre @ encode P header @ payload @ post) (length pre) = header \<and>
         slice (pre @ encode P header @ payload @ post) (length pre + MessageSize P)
           (length pre + MessageSize P
              + unat (ContentLength (decode P (pre @ encode P header @ payload @ post) (length pre))))
           = payload \<and>
         (Operation header \<noteq> STREAMCLOSE Q \<and> Operation header \<noteq> STREAM Q \<and>
          payload \<noteq> [] \<and> length payload < 2 ^ 63 \<and>
          \<not> rbclosed (incomingMessages c) \<and>
          length (items (incomingMessages c)) < capacity (incomingMessages c) \<and>
          length pre + MessageSize P + length payload \<le> n \<longrightarrow>
          readLoop_frame P Q c (pre @ encode P header @ payload @ post) (length pre) n =
            Done (c\<lparr>incomingMessages :=
                      (incomingMessages c)\<lparr>items := items (incomingMessages c) @
                         [\<lparr> Message' = header, Content = Some payload \<rparr>]\<rparr>\<rparr>,
                  READ (length pre + MessageSize P + length payload)))"
proof -
  have "slice (pre @ encode P header @ payload @ post) (length pre + MessageSize P)
           (length pre + MessageSize P
              + unat (ContentLength (decode P (pre @ encode P header @ payload @ post) (length pre))))
           = payload"
    using assms(2) slice_after_frame [of pre "encode P header" payload post]
    by (simp add: decode_encode_at [OF assms(1)] length_encode [OF assms(1)])
  then show ?thesis
    using reserved_ok_encode_at [OF assms(1), of pre header "payload @ post"]
      decode_encode_at [OF assms(1), of pre header "payload @ post"]
      readLoop_frame_delivers [OF assms, of Q c pre n post]
    by blast
qed

theorem header_payload_roundtrip_witness:
  "valid_protocol sample_protocol \<and>
   length [1, 2, 3 :: byte] = unat (ContentLength sample_message) \<and>
   decode sample_protocol ([9] @ encode sample_protocol sample_message @ [1, 2, 3] @ [7])
     (length [9 :: byte]) = sample_message \<and>
   readLoop_frame sample_protocol sample_opcodes (New sample_stream)
     ([9] @ encode sample_protocol sample_message @ [1, 2, 3] @ [7]) (length [9 :: byte]) 37 =
     Done ((New sample_stream)\<lparr>incomingMessages :=
               (incomingMessages (New sample_stream))\<lparr>items :=
                  items (incomingMessages (New sample_stream)) @
                    [\<lparr> Message' = sample_message, Content = Some [1, 2, 3] \<rparr>]\<rparr>\<rparr>,
           READ (length [9 :: byte] + MessageSize sample_protocol + length [1, 2, 3 :: byte]))"
proof -
  have v: "valid_protocol sample_protocol"
    unfolding sample_protocol_def by (rule valid_spec_protocol)
  have l: "length [1, 2, 3 :: byte] = unat (ContentLength sample_message)"
    by (simp add: sample_message_def)
  have h: "Operation sample_message \<noteq> STREAMCLOSE sample_opcodes \<and>
      Operation sample_message \<noteq> STREAM sample_opcodes \<and>
      [1, 2, 3 :: byte] \<noteq> [] \<and> length [1, 2, 3 :: byte] < 2 ^ 63 \<and>
      \<not> rbclosed (incomingMessages (New sample_stream)) \<and>
      length (items (incomingMessages (New sample_stream)))
        < capacity (incomingMessages (New sample_stream)) \<and>
      length [9 :: byte] + MessageSize sample_protocol + length [1, 2, 3 :: byte] \<le> 37"
    by (simp add: sample_message_def sample_opcodes_def New_def NewRingBuffer_def
        DefaultBufferSize_def sample_protocol_def spec_protocol_def)
  from header_payload_roundtrip [OF v l, of "[9]" "[7]" sample_opcodes "New sample_stream" 37]
    v l h
  show ?thesis
    by blast
qed

section \<open>Writing a message\<close>

text \<open>
  Claim C5. When a content is given and its length differs from the header's
  \<open>ContentLength\<close>, \<^verbatim>\<open>WriteMessage\<close> returns \<open>InvalidContentLength\<close> and leaves the connection
  as it was: nothing reaches the writer, no wake is posted for the flusher, the state is
  the same.
\<close>

theorem WriteMessage_InvalidContentLength:
  assumes "length p \<noteq> unat (ContentLength message)"
  shows "WriteMessage P c message (Some p) = Done (c, Some InvalidContentLength)"
  using assms sint_eq_length [of "ContentLength message" "length p"]
  by (auto simp: WriteMessage_def)

theorem WriteMessage_InvalidContentLength_witness:
  "length [1 :: byte] \<noteq> unat (ContentLength sample_message) \<and>
   WriteMessage sample_protocol (New sample_stream) sample_message (Some [1])
     = Done (New sample_stream, Some InvalidContentLength)"
  using WriteMessage_InvalidContentLength [of "[1]" sample_message sample_protocol "New sample_stream"]
  by (simp add: sample_message_def)

text \<open>
  Claim C10. With a \<^verbatim>\<open>nil\<close> content the length check is skipped, whatever the header's
  \<open>ContentLength\<close>. On a reachable connection in state \<open>CONNECTED\<close>: if the buffered
  writer accepts the header, \<^verbatim>\<open>WriteMessage\<close> returns \<^verbatim>\<open>nil\<close>, has posted the wake, and the
  bytes on their way to the peer have grown by the encoded header and by nothing else,
  a header that announces \<open>ContentLength\<close> bytes of content; if the writer fails with an
  error, the result is that of \<^verbatim>\<open>closeWithError\<close>, and it is \<open>InvalidContentLength\<close> only if
  the writer's error was.
\<close>

theorem WriteMessage_nil_content:
  assumes "reachable P Q c" and "state c = CONNECTED" and "valid_protocol P"
  shows "(bufio_Write (writer c) (conn c) (encode P message) = (w, s, None) \<longrightarrow>
            (\<exists>f. wake (flusher c) = Some f \<and>
                 WriteMessage P c message None
                   = Done (c\<lparr>writer := w, conn := s, flusher := f\<rparr>, None)) \<and>
            wire w s = wire (writer c) (conn c) @ encode P message) \<and>
         (bufio_Write (writer c) (conn c) (encode P message) = (w, s, Some e) \<longrightarrow>
            WriteMessage P c message None
              = closeWithError Application (c\<lparr>writer := w, conn := s\<rparr>) e \<and>
            (e \<noteq> InvalidContentLength \<longrightarrow>
               (\<forall>c'. WriteMessage P c message None \<noteq> Done (c', Some InvalidContentLength)))) \<and>
         ContentLength (decode P (encode P message) 0) = ContentLength message"
proof -
  have f: "\<not> chclosed (flusher c)"
    using reachable_inv [OF assms(1)] assms(2) by (simp add: conn_inv_def)
  have 1: "bufio_Write (writer c) (conn c) (encode P message) = (w, s, None) \<longrightarrow>
            (\<exists>f. wake (flusher c) = Some f \<and>
                 WriteMessage P c message None
                   = Done (c\<lparr>writer := w, conn := s, flusher := f\<rparr>, None)) \<and>
            wire w s = wire (writer c) (conn c) @ encode P message"
    using wake_and_return_open [of "c\<lparr>writer := w, conn := s\<rparr>"] f assms(2)
    by (auto simp: WriteMessage_def Let_def bufio_Write_wire)
  have 2: "bufio_Write (writer c) (conn c) (encode P message) = (w, s, Some e) \<longrightarrow>
            WriteMessage P c message None
              = closeWithError Application (c\<lparr>writer := w, conn := s\<rparr>) e \<and>
            (e \<noteq> InvalidContentLength \<longrightarrow>
               (\<forall>c'. WriteMessage P c message None \<noteq> Done (c', Some InvalidContentLength)))"
  proof
    assume w: "bufio_Write (writer c) (conn c) (encode P message) = (w, s, Some e)"
    then have eq: "WriteMessage P c message None
              = closeWithError Application (c\<lparr>writer := w, conn := s\<rparr>) e"
      using assms(2) by (simp add: WriteMessage_def Let_def write_failed_def)
    from closeWithError_connected_result [of "c\<lparr>writer := w, conn := s\<rparr>" e] assms(2) f
    obtain c' where
      "closeWithError Application (c\<lparr>writer := w, conn := s\<rparr>) e = Done (c', Some e) \<or>
       closeWithError Application (c\<lparr>writer := w, conn := s\<rparr>) e = Done (c', Some ConnectionPaused)"
      by auto
    then show "WriteMessage P c message None
              = closeWithError Application (c\<lparr>writer := w, conn := s\<rparr>) e \<and>
            (e \<noteq> InvalidContentLength \<longrightarrow>
               (\<forall>c'. WriteMessage P c message None \<noteq> Done (c', Some InvalidContentLength)))"
      using eq by auto
  qed
  have 3: "ContentLength (decode P (encode P message) 0) = ContentLength message"
    using decode_encode_at [OF assms(3), of "[]" message "[]"] by simp
  from 1 2 3 show ?thesis by blast
qed

theorem WriteMessage_nil_content_witness:
  "reachable sample_protocol sample_opcodes sample_conn \<and> state sample_conn = CONNECTED \<and>
   valid_protocol sample_protocol \<and>
   0 < ContentLength sample_message \<and>
   WriteMessage sample_protocol sample_conn sample_message None
     = Done (sample_conn\<lparr> writer := (writer sample_conn)\<lparr>wbuf := encode sample_protocol sample_message\<rparr>,
                conn := conn sample_conn,
                flusher := \<lparr> chlen = 1, chclosed = False \<rparr> \<rparr>, None) \<and>
   wire ((writer sample_conn)\<lparr>wbuf := encode sample_protocol sample_message\<rparr>) (conn sample_conn)
     = encode sample_protocol sample_message"
proof -
  have v: "valid_protocol sample_protocol"
    unfolding sample_protocol_def by (rule valid_spec_protocol)
  have r: "reachable sample_protocol sample_opcodes sample_conn"
    by (rule reachable_sample_conn)
  have s: "state sample_conn = CONNECTED"
    by (rule sample_conn_facts)
  have l: "length (encode sample_protocol sample_message) = 32"
    using length_encode [OF v, of sample_message]
    by (simp add: sample_protocol_def spec_protocol_def)
  have w0: "wbuf (writer sample_conn) = []" "werr (writer sample_conn) = None"
    "bufio_Available (writer sample_conn) = 2 ^ 19" "ops (conn sample_conn) = []"
    "flusher sample_conn = \<lparr> chlen = 0, chclosed = False \<rparr>"
    by (simp_all add: sample_conn_def NewStreamConn_def New_def NewWriterSize_def
        bufio_Available_def DefaultBufferSize_def sample_stream_def make_chan_def)
  have b: "bufio_Write (writer sample_conn) (conn sample_conn) (encode sample_protocol sample_message)
      = ((writer sample_conn)\<lparr>wbuf := encode sample_protocol sample_message\<rparr>, conn sample_conn, None)"
    using bufio_Write_fits [of "encode sample_protocol sample_message" "writer sample_conn"
        "conn sample_conn"]
    by (simp add: l w0)
  have k: "wake (flusher sample_conn) = Some \<lparr> chlen = 1, chclosed = False \<rparr>"
    by (simp add: w0 wake_def)
  from WriteMessage_nil_content [OF r s v,
      of sample_message "(writer sample_conn)\<lparr>wbuf := encode sample_protocol sample_message\<rparr>"
         "conn sample_conn"] b k r s v
  show ?thesis
    by (auto simp: wire_def w0 sample_message_def)
qed

section \<open>The state machine\<close>

text \<open>
  Claim C2. On a reachable connection whose state is not \<open>CONNECTED\<close>, the calls
  \<^verbatim>\<open>WriteMessage\<close> and \<^verbatim>\<open>ReadMessage\<close>, and \<^verbatim>\<open>StreamConn.Write\<close> on every sub-stream \<open>s\<close>
  that the connection has, return an error that is not \<^verbatim>\<open>nil\<close>, and the connection is
  afterwards what it was before: the stream underneath and the buffered writer have not
  been used.
\<close>

theorem not_connected_no_io:
  assumes "reachable P Q c" and "state c \<noteq> CONNECTED"
  shows "(\<exists>e. WriteMessage P c message content = Done (c, Some e)) \<and>
         (\<exists>e. ReadMessage c = Done (c, Inl (Some e))) \<and>
         (s < length (heap c) \<longrightarrow> (\<exists>e. StreamConn_Write P Q c s p = Done (c, 0, Some e)))"
  using assms(2) reachable_error [OF assms(1)]
  by (auto simp: WriteMessage_def ReadMessage_def StreamConn_Write_def Let_def)

theorem not_connected_no_io_witness:
  "reachable sample_protocol sample_opcodes sample_paused \<and>
   state sample_paused \<noteq> CONNECTED \<and> 0 < length (heap sample_paused) \<and>
   WriteMessage sample_protocol sample_paused sample_message None
     = Done (sample_paused, Some ConnectionPaused) \<and>
   ReadMessage sample_paused = Done (sample_paused, Inl (Some ConnectionPaused)) \<and>
   StreamConn_Write sample_protocol sample_opcodes sample_paused 0 [1, 2]
     = Done (sample_paused, 0, Some ConnectionPaused)"
proof -
  have r: "reachable sample_protocol sample_opcodes sample_paused"
    by (rule reachable_sample_paused)
  have s: "state sample_paused \<noteq> CONNECTED"
    by (simp add: sample_paused_facts)
  have h: "0 < length (heap sample_paused)"
    by (simp add: sample_paused_facts)
  from not_connected_no_io [OF r s, of sample_message None 0 "[1, 2]"] r s h show ?thesis
    by (auto simp: WriteMessage_def ReadMessage_def StreamConn_Write_def Let_def
        sample_paused_facts)
qed

text \<open>
  Claim C3 says of \<^verbatim>\<open>closeWithError\<close> on a connection in state \<open>CONNECTED\<close>: a timeout error
  is returned as it is and nothing changes; for \<open>EOF\<close> or a closed pipe the state becomes
  \<open>PAUSED\<close> and \<open>ConnectionPaused\<close> is returned; for every other error the state becomes
  \<open>CLOSED\<close>, the error is stored in the last-error cell and returned. The code does so
  for a caller other than the two workers (lemma \<open>closeWithError_application\<close>), and
  departs from the claim when a worker calls: here the reader worker, on the sample
  connection, with a read error that is neither a timeout nor \<open>EOF\<close> nor a closed pipe.
  The call wins the transition to \<open>CLOSED\<close>, stores \<open>ConnectionClosed\<close> and then waits in
  \<^verbatim>\<open>killGoroutines\<close> for the worker that is making the call: it never returns. The error
  is not stored in the last-error cell, the stream is not closed, nothing is returned.
\<close>

theorem closeWithError_reader_blocks:
  "closeWithError ReadLoop sample_conn (OtherError 104) =
     Blocks (sample_conn\<lparr> state := CLOSED, error := Some ConnectionClosed,
               incomingMessages := rb_Close (incomingMessages sample_conn),
               flusher := (flusher sample_conn)\<lparr>chclosed := True\<rparr>,
               conn := conn_SetReadDeadline (conn sample_conn) True \<rparr>)"
  using closeWithError_worker [of sample_conn ReadLoop "OtherError 104"]
  by (simp add: sample_conn_facts os_IsTimeout_def)




text \<open>
  Claim C6. \<^verbatim>\<open>Close\<close> is idempotent. On a reachable connection the first call returns
  \<^verbatim>\<open>nil\<close> and leaves the state \<open>CLOSED\<close>; from \<open>CONNECTED\<close> it has closed the incoming
  queue, the flusher channel and, last, the stream. A call on a connection that is
  \<open>CLOSED\<close> returns \<^verbatim>\<open>nil\<close> and changes nothing.
\<close>

theorem Close_idempotent:
  assumes "reachable P Q c"
  shows "\<exists>c1. Close c = Done (c1, None) \<and> state c1 = CLOSED \<and> Close c1 = Done (c1, None) \<and>
           (state c = CLOSED \<longrightarrow> c1 = c) \<and>
           (state c = CONNECTED \<longrightarrow>
              rbclosed (incomingMessages c1) \<and> chclosed (flusher c1) \<and>
              last (ops (conn c1)) = OpClose)"
proof (cases "state c")
  case CONNECTED
  have f: "\<not> chclosed (flusher c)"
    using reachable_inv [OF assms] CONNECTED by (simp add: conn_inv_def)
  from close_connected [OF CONNECTED f] obtain c1 where
    c1: "close Application c = Done (c1, None)" "state c1 = CLOSED"
      "rbclosed (incomingMessages c1)"
      "chclosed (flusher c1)"
    by blast
  let ?c2 = "c1\<lparr>conn := conn_Close (conn c1)\<rparr>"
  have "Close c = Done (?c2, None)"
    using c1(1) by (simp add: Close_def and_then_def)
  moreover have "state ?c2 = CLOSED" using c1(2) by simp
  then have "Close ?c2 = Done (?c2, None)" by (rule Close_closed)
  moreover have "last (ops (conn ?c2)) = OpClose" by (simp add: conn_Close_def)
  ultimately show ?thesis using c1 CONNECTED by auto
next
  case CLOSED
  then show ?thesis by (simp add: Close_closed)
next
  case PAUSED
  let ?c1 = "c\<lparr>state := CLOSED, error := Some ConnectionClosed\<rparr>"
  let ?c2 = "?c1\<lparr>conn := conn_Close (conn ?c1)\<rparr>"
  have "Close c = Done (?c2, None)"
    using close_paused [OF PAUSED] by (simp add: Close_def and_then_def)
  moreover have "Close ?c2 = Done (?c2, None)" by (rule Close_closed) simp
  ultimately show ?thesis using PAUSED by auto
qed

theorem Close_idempotent_witness:
  "reachable sample_protocol sample_opcodes sample_conn \<and>
   (\<exists>c1. Close sample_conn = Done (c1, None) \<and> state c1 = CLOSED \<and> Close c1 = Done (c1, None))"
  using Close_idempotent [of sample_protocol sample_opcodes sample_conn] reachable_sample_conn
  by blast

section \<open>The reader and a \<open>STREAMCLOSE\<close> frame\<close>

text \<open>
  Claim C7. The reader worker has accepted the reserved bytes at \<open>index\<close> and decoded a
  header whose operation is \<open>STREAMCLOSE\<close>. If the header's id is in the map of
  sub-streams, the closed flag of that sub-stream is set and the id leaves the map; if it
  is not, the connection is unchanged. In both cases control reaches the label
  \<^verbatim>\<open>READ\<close> with the index moved by the width of the header only, whatever
  \<open>ContentLength\<close> says, and the stream has not been read. (The constants of the protocol
  are valid and the header lies inside the buffer.)
\<close>

theorem readLoop_STREAMCLOSE:
  assumes "reachable P Q c" and "valid_protocol P" and "index + MessageSize P \<le> length buf"
    and "reserved_ok P buf index" and "Operation (decode P buf index) = STREAMCLOSE Q"
  shows "(\<forall>a. streamConns c (Id' (decode P buf index)) = Some a \<longrightarrow>
            readLoop_frame P Q c buf index n =
              Done (c\<lparr> heap := (heap c)[a := (heap c ! a)\<lparr>closed := True\<rparr>],
                       streamConns := (streamConns c)(Id' (decode P buf index) := None) \<rparr>,
                    READ (index + MessageSize P))) \<and>
         (streamConns c (Id' (decode P buf index)) = None \<longrightarrow>
            readLoop_frame P Q c buf index n = Done (c, READ (index + MessageSize P)))"
proof -
  have w: "\<not> length buf < index + ReservedOffset P + ReservedSize P" "fields_in P buf index"
    using assms(2,3) by (auto simp: valid_protocol_def fields_in_def)
  show ?thesis
    using assms(4,5) w reachable_inv [OF assms(1)]
    by (auto simp: readLoop_frame_def Let_def conn_inv_def)
qed

theorem readLoop_STREAMCLOSE_witness:
  "reachable sample_protocol sample_opcodes sample_conn \<and>
   reserved_ok sample_protocol
     (encode sample_protocol
        \<lparr> From = 0, To = 0, Id' = 7, Operation = 2, ContentLength = 5 \<rparr> @ [1, 2, 3, 4, 5]) 0 \<and>
   readLoop_frame sample_protocol sample_opcodes sample_conn
     (encode sample_protocol
        \<lparr> From = 0, To = 0, Id' = 7, Operation = 2, ContentLength = 5 \<rparr> @ [1, 2, 3, 4, 5]) 0 37
     = Done (sample_conn\<lparr> heap := [\<lparr> id' = 7, incomingBuffer = [], closed = True \<rparr>],
                streamConns := Map.empty \<rparr>,
             READ 32)"
proof -
  let ?m = "\<lparr> From = 0, To = 0, Id' = 7, Operation = 2, ContentLength = 5 \<rparr> :: Message"
  let ?buf = "encode sample_protocol ?m @ [1, 2, 3, 4, 5]"
  have v: "valid_protocol sample_protocol"
    unfolding sample_protocol_def by (rule valid_spec_protocol)
  have r: "reachable sample_protocol sample_opcodes sample_conn"
    by (rule reachable_sample_conn)
  have ok: "reserved_ok sample_protocol ?buf 0"
    using reserved_ok_encode_at [OF v, of "[]" ?m "[1, 2, 3, 4, 5]"] by simp
  have d: "decode sample_protocol ?buf 0 = ?m"
    using decode_encode_at [OF v, of "[]" ?m "[1, 2, 3, 4, 5]"] by simp
  have op: "Operation (decode sample_protocol ?buf 0) = STREAMCLOSE sample_opcodes"
    by (simp add: d sample_opcodes_def)
  have m: "streamConns sample_conn (Id' (decode sample_protocol ?buf 0)) = Some 0"
    by (simp add: d sample_conn_def NewStreamConn_def New_def)
  have i: "Id' (decode sample_protocol ?buf 0) = 7"
    by (simp add: d)
  have e: "(streamConns sample_conn)(7 := None) = Map.empty"
    by (simp add: sample_conn_def NewStreamConn_def New_def)
  have ms: "0 + MessageSize sample_protocol = 32"
    by (simp add: sample_protocol_def spec_protocol_def)
  have hp: "(heap sample_conn)[0 := (heap sample_conn ! 0)\<lparr>closed := True\<rparr>]
      = [\<lparr> id' = 7, incomingBuffer = [], closed = True \<rparr>]"
    by (simp add: sample_conn_facts)
  have b: "0 + MessageSize sample_protocol \<le> length ?buf"
    using length_encode [OF v, of ?m] by simp
  from readLoop_STREAMCLOSE [OF r v b ok op, of 37] m
  have "readLoop_frame sample_protocol sample_opcodes sample_conn ?buf 0 37 =
      Done (sample_conn\<lparr> heap := (heap sample_conn)[0 := (heap sample_conn ! 0)\<lparr>closed := True\<rparr>],
                streamConns := (streamConns sample_conn)(Id' (decode sample_protocol ?buf 0) := None) \<rparr>,
            READ (0 + MessageSize sample_protocol))"
    by blast
  then have "readLoop_frame sample_protocol sample_opcodes sample_conn ?buf 0 37 =
      Done (sample_conn\<lparr> heap := [\<lparr> id' = 7, incomingBuffer = [], closed = True \<rparr>],
                streamConns := Map.empty \<rparr>,
            READ 32)"
    unfolding i e ms hp .
  with r ok show ?thesis
    by blast
qed

section \<open>Writing to a sub-stream that is refused\<close>

text \<open>
  Claim C8, as stated, asks for the error \<open>ConnectionClosed\<close> whenever the parent is not
  \<open>CONNECTED\<close>. On the paused sample connection \<^verbatim>\<open>StreamConn.Write\<close> returns 0 and
  \<open>ConnectionPaused\<close>.
\<close>

theorem StreamConn_Write_paused_counterexample:
  "reachable sample_protocol sample_opcodes sample_paused \<and>
   state sample_paused \<noteq> CONNECTED \<and>
   StreamConn_Write sample_protocol sample_opcodes sample_paused 0 [1, 2]
     = Done (sample_paused, 0, Some ConnectionPaused) \<and>
   ConnectionPaused \<noteq> ConnectionClosed"
  by (simp add: reachable_sample_paused StreamConn_Write_def Let_def sample_paused_facts)

text \<open>
  Claim C8, amended. \<^verbatim>\<open>StreamConn.Write\<close> returns 0 and the connection's stored error
  (what \<^verbatim>\<open>Error()\<close> returns) when the parent is not \<open>CONNECTED\<close>; it returns 0 and
  \<open>ConnectionClosed\<close> when the parent is \<open>CONNECTED\<close> and the sub-stream is locally closed.
  In both cases nothing is written.
\<close>

theorem StreamConn_Write_refused:
  assumes "s < length (heap c)"
  shows "(state c \<noteq> CONNECTED \<longrightarrow> StreamConn_Write P Q c s p = Done (c, 0, Error c)) \<and>
         (state c = CONNECTED \<and> closed (heap c ! s) \<longrightarrow>
            StreamConn_Write P Q c s p = Done (c, 0, Some ConnectionClosed))"
  using assms by (simp add: StreamConn_Write_def Let_def)

theorem StreamConn_Write_refused_witness:
  "0 < length (heap sample_paused) \<and> state sample_paused \<noteq> CONNECTED \<and>
   StreamConn_Write sample_protocol sample_opcodes sample_paused 0 [1, 2]
     = Done (sample_paused, 0, Error sample_paused)"
  using StreamConn_Write_refused [of 0 sample_paused sample_protocol sample_opcodes "[1, 2]"]
  by (simp add: sample_paused_facts)

section \<open>The router loop\<close>

text \<open>
  Claim C9. For a packet that \<^verbatim>\<open>ReadMessage\<close> has delivered to the loop of a client on a
  reachable connection. When no handler is registered for its operation, the packet is
  dropped, the client is what it was and the loop goes on. When a handler is registered
  and has returned a header \<open>r\<close> that is not \<^verbatim>\<open>nil\<close> and whose \<open>ContentLength\<close> is the length
  of the content \<open>oc\<close> it returned (a Go slice, shorter than \<open>2 ^ 63\<close>), the turn is the call
  \<^verbatim>\<open>WriteMessage\<close> of \<open>r\<close> and \<open>oc\<close> on the client's connection: the loop goes on exactly when
  that call returned \<^verbatim>\<open>nil\<close> and the action is \<open>NONE\<close>, the client then holds the connection
  that the call left, otherwise the client is closed on that connection; the bytes on
  their way to the peer are those that the call left, and when the call returned \<^verbatim>\<open>nil\<close>
  they are the former ones followed by the encoded header \<open>r\<close> and by \<open>oc\<close>. In every
  other case with a handler (a \<^verbatim>\<open>nil\<close> header, or a \<open>ContentLength\<close> that differs from the
  length of the content) nothing is written: the bytes on their way to the peer are the
  same, the loop goes on with the same client exactly when the action is \<open>NONE\<close>, and
  otherwise the client is closed.
\<close>

theorem reactor_route_reply:
  assumes "reachable P Q (conn' cl)"
  shows "(router cl (Operation m) = None \<longrightarrow> reactor_route P cl m content = Done (cl, [], True)) \<and>
         (\<forall>h om oc action.
            router cl (Operation m) = Some h \<and> h m (handler_content m content) = (om, oc, action) \<and>
            length oc < 2 ^ 63 \<longrightarrow>
            (\<forall>r. om = Some r \<and> unat (ContentLength r) = length oc \<longrightarrow>
               (\<exists>c1 err cl' cont.
                  WriteMessage P (conn' cl) r (Some oc) = Done (c1, err) \<and>
                  reactor_route P cl m content =
                    Done (cl', [Handled m (handler_content m content), Replied r oc], cont) \<and>
                  (cont \<longleftrightarrow> err = None \<and> action = NONE) \<and>
                  (cont \<longrightarrow> cl' = cl\<lparr>conn' := c1\<rparr>) \<and>
                  (\<not> cont \<longrightarrow> (\<exists>e. Client_Close (cl\<lparr>conn' := c1\<rparr>) = Done (cl', e))) \<and>
                  wire (writer (conn' cl')) (conn (conn' cl')) = wire (writer c1) (conn c1) \<and>
                  (err = None \<longrightarrow>
                     wire (writer c1) (conn c1) =
                       wire (writer (conn' cl)) (conn (conn' cl)) @ encode P r @ oc))) \<and>
            (\<not> (\<exists>r. om = Some r \<and> unat (ContentLength r) = length oc) \<longrightarrow>
               (\<exists>cl' cont.
                  reactor_route P cl m content =
                    Done (cl', [Handled m (handler_content m content)], cont) \<and>
                  (cont \<longleftrightarrow> action = NONE) \<and>
                  (cont \<longrightarrow> cl' = cl) \<and>
                  (\<not> cont \<longrightarrow> (\<exists>e. Client_Close cl = Done (cl', e))) \<and>
                  wire (writer (conn' cl')) (conn (conn' cl'))
                    = wire (writer (conn' cl)) (conn (conn' cl)))))"
proof (intro conjI allI impI)
  assume "router cl (Operation m) = None"
  then show "reactor_route P cl m content = Done (cl, [], True)"
    by (simp add: reactor_route_def)
next
  fix h om oc action r
  assume a: "router cl (Operation m) = Some h \<and> h m (handler_content m content) = (om, oc, action) \<and>
            length oc < 2 ^ 63"
    and b: "om = Some r \<and> unat (ContentLength r) = length oc"
  let ?evs = "[Handled m (handler_content m content), Replied r oc]"
  have inv: "conn_inv (conn' cl)"
    using assms by (rule reachable_inv)
  have len: "length oc < 2 ^ 64"
    using a by (auto intro: less_trans)
  have eq: "ContentLength r = of_nat (length oc)"
    using b word_eq_of_nat_length [OF len, of "ContentLength r"] by simp
  from WriteMessage_total [OF inv, of P r "Some oc"]
  obtain c1 err where w: "WriteMessage P (conn' cl) r (Some oc) = Done (c1, err)"
    by blast
  have inv1: "conn_inv (conn' (cl\<lparr>conn' := c1\<rparr>))"
    using after_Done [OF inv_WriteMessage [OF inv] w] by simp
  have wr: "err = None \<longrightarrow>
      wire (writer c1) (conn c1) = wire (writer (conn' cl)) (conn (conn' cl)) @ encode P r @ oc"
  proof
    assume n: "err = None"
    with w have w': "WriteMessage P (conn' cl) r (Some oc) = Done (c1, None)" by simp
    from WriteMessage_wire [OF inv WriteMessage_nil_connected [OF inv w'] w']
    show "wire (writer c1) (conn c1) = wire (writer (conn' cl)) (conn (conn' cl)) @ encode P r @ oc"
      by simp
  qed
  show "\<exists>c1 err cl' cont.
          WriteMessage P (conn' cl) r (Some oc) = Done (c1, err) \<and>
          reactor_route P cl m content = Done (cl', ?evs, cont) \<and>
          (cont \<longleftrightarrow> err = None \<and> action = NONE) \<and>
          (cont \<longrightarrow> cl' = cl\<lparr>conn' := c1\<rparr>) \<and>
          (\<not> cont \<longrightarrow> (\<exists>e. Client_Close (cl\<lparr>conn' := c1\<rparr>) = Done (cl', e))) \<and>
          wire (writer (conn' cl')) (conn (conn' cl')) = wire (writer c1) (conn c1) \<and>
          (err = None \<longrightarrow>
             wire (writer c1) (conn c1) =
               wire (writer (conn' cl)) (conn (conn' cl)) @ encode P r @ oc)"
  proof (cases err)
    case None
    from act_result [OF inv1, where action = action and evs = ?evs] obtain cl2 cont where
      r: "(case action of
            CLOSE \<Rightarrow> and_then (Client_Close (cl\<lparr>conn' := c1\<rparr>)) (\<lambda>(cl2, _). Done (cl2, ?evs, False))
          | SHUTDOWN \<Rightarrow> and_then (Client_Close (cl\<lparr>conn' := c1\<rparr>)) (\<lambda>(cl2, _). Done (cl2, ?evs, False))
          | NONE \<Rightarrow> Done (cl\<lparr>conn' := c1\<rparr>, ?evs, True)) = Done (cl2, ?evs, cont)"
      and c: "cont \<longleftrightarrow> action = NONE" "cont \<longrightarrow> cl2 = cl\<lparr>conn' := c1\<rparr>"
        "\<not> cont \<longrightarrow> (\<exists>e. Client_Close (cl\<lparr>conn' := c1\<rparr>) = Done (cl2, e))"
        "wire (writer (conn' cl2)) (conn (conn' cl2)) = wire (writer c1) (conn c1)"
      by auto
    have "reactor_route P cl m content = Done (cl2, ?evs, cont)"
      using a b eq w None r by (simp add: reactor_route_def Let_def and_then_Done)
    with w None c wr show ?thesis by blast
  next
    case (Some e)
    from Client_Close_total [OF inv1] obtain cl2 e2 where
      cc: "Client_Close (cl\<lparr>conn' := c1\<rparr>) = Done (cl2, e2)" by blast
    have "reactor_route P cl m content = Done (cl2, ?evs, False)"
      using a b eq w Some cc by (simp add: reactor_route_def Let_def and_then_Done)
    moreover have "wire (writer (conn' cl2)) (conn (conn' cl2)) = wire (writer c1) (conn c1)"
      using Client_Close_conn [OF cc] by simp
    ultimately show ?thesis using w Some cc by auto
  qed
next
  fix h om oc action
  assume a: "router cl (Operation m) = Some h \<and> h m (handler_content m content) = (om, oc, action) \<and>
            length oc < 2 ^ 63"
    and b: "\<not> (\<exists>r. om = Some r \<and> unat (ContentLength r) = length oc)"
  let ?evs = "[Handled m (handler_content m content)]"
  have inv: "conn_inv (conn' cl)"
    using assms by (rule reachable_inv)
  have len: "length oc < 2 ^ 64"
    using a by (auto intro: less_trans)
  from act_result [OF inv, where action = action and evs = ?evs] obtain cl2 cont where
    r: "(case action of
          CLOSE \<Rightarrow> and_then (Client_Close cl) (\<lambda>(cl2, _). Done (cl2, ?evs, False))
        | SHUTDOWN \<Rightarrow> and_then (Client_Close cl) (\<lambda>(cl2, _). Done (cl2, ?evs, False))
        | NONE \<Rightarrow> Done (cl, ?evs, True)) = Done (cl2, ?evs, cont)"
    and c: "cont \<longleftrightarrow> action = NONE" "cont \<longrightarrow> cl2 = cl"
      "\<not> cont \<longrightarrow> (\<exists>e. Client_Close cl = Done (cl2, e))"
      "wire (writer (conn' cl2)) (conn (conn' cl2)) = wire (writer (conn' cl)) (conn (conn' cl))"
    by auto
  have "reactor_route P cl m content = Done (cl2, ?evs, cont)"
  proof (cases om)
    case None
    with a r show ?thesis by (simp add: reactor_route_def Let_def)
  next
    case (Some r')
    with b have "unat (ContentLength r') \<noteq> length oc" by simp
    then have "ContentLength r' \<noteq> of_nat (length oc)"
      using word_eq_of_nat_length [OF len, of "ContentLength r'"] by simp
    with a Some r show ?thesis by (simp add: reactor_route_def Let_def)
  qed
  with c show "\<exists>cl' cont.
          reactor_route P cl m content = Done (cl', ?evs, cont) \<and>
          (cont \<longleftrightarrow> action = NONE) \<and>
          (cont \<longrightarrow> cl' = cl) \<and>
          (\<not> cont \<longrightarrow> (\<exists>e. Client_Close cl = Done (cl', e))) \<and>
          wire (writer (conn' cl')) (conn (conn' cl'))
            = wire (writer (conn' cl)) (conn (conn' cl))"
    by blast
qed

theorem reactor_route_reply_witness:
  "reachable sample_protocol sample_opcodes (conn' sample_client) \<and>
   WriteMessage sample_protocol (conn' sample_client) (sample_message\<lparr>Operation := 17\<rparr>) (Some [1, 2, 3])
     = Done (sample_conn\<lparr> writer := (writer sample_conn)
                 \<lparr>wbuf := encode sample_protocol (sample_message\<lparr>Operation := 17\<rparr>) @ [1, 2, 3]\<rparr>,
               conn := conn sample_conn,
               flusher := \<lparr> chlen = 1, chclosed = False \<rparr> \<rparr>, None) \<and>
   reactor_route sample_protocol sample_client sample_message (Some [1, 2, 3])
     = Done (sample_client\<lparr> conn' := sample_conn\<lparr> writer := (writer sample_conn)
                 \<lparr>wbuf := encode sample_protocol (sample_message\<lparr>Operation := 17\<rparr>) @ [1, 2, 3]\<rparr>,
               conn := conn sample_conn,
               flusher := \<lparr> chlen = 1, chclosed = False \<rparr> \<rparr> \<rparr>,
             [Handled sample_message [1, 2, 3],
              Replied (sample_message\<lparr>Operation := 17\<rparr>) [1, 2, 3]], True) \<and>
   wire (writer (conn' sample_client)) (conn (conn' sample_client)) = [] \<and>
   wire ((writer sample_conn)
           \<lparr>wbuf := encode sample_protocol (sample_message\<lparr>Operation := 17\<rparr>) @ [1, 2, 3]\<rparr>)
        (conn sample_conn)
     = encode sample_protocol (sample_message\<lparr>Operation := 17\<rparr>) @ [1, 2, 3]"
proof -
  let ?r = "sample_message\<lparr>Operation := 17\<rparr>"
  let ?c1 = "sample_conn\<lparr> writer := (writer sample_conn)\<lparr>wbuf := encode sample_protocol ?r @ [1, 2, 3]\<rparr>,
               conn := conn sample_conn,
               flusher := \<lparr> chlen = 1, chclosed = False \<rparr> \<rparr>"
  have v: "valid_protocol sample_protocol"
    unfolding sample_protocol_def by (rule valid_spec_protocol)
  have cc: "conn' sample_client = sample_conn"
    by (simp add: sample_client_def)
  have r: "reachable sample_protocol sample_opcodes (conn' sample_client)"
    by (simp add: cc reachable_sample_conn)
  have h: "router sample_client (Operation sample_message)
      = Some (\<lambda>m p. (Some (m\<lparr>Operation := 17\<rparr>), p, NONE))"
    by (simp add: sample_client_def sample_message_def)
  have c: "handler_content sample_message (Some [1, 2, 3]) = [1, 2, 3]"
    by (simp add: handler_content_def sample_message_def)
  have u: "unat (ContentLength ?r) = 3"
    by (simp add: sample_message_def)
  have "(3 :: nat) < 2 ^ 63"
    by simp
  from length_eq_sint [OF u this] have u': "sint (ContentLength sample_message) = 3"
    by simp
  have l: "length (encode sample_protocol ?r) = 32"
    using length_encode [OF v, of ?r]
    by (simp add: sample_protocol_def spec_protocol_def)
  have w0: "wbuf (writer sample_conn) = []" "werr (writer sample_conn) = None"
    "bufio_Available (writer sample_conn) = 2 ^ 19" "ops (conn sample_conn) = []"
    "wsize (writer sample_conn) = 2 ^ 19"
    "flusher sample_conn = \<lparr> chlen = 0, chclosed = False \<rparr>"
    by (simp_all add: sample_conn_def NewStreamConn_def New_def NewWriterSize_def
        bufio_Available_def DefaultBufferSize_def sample_stream_def make_chan_def)
  have b1: "bufio_Write (writer sample_conn) (conn sample_conn) (encode sample_protocol ?r)
      = ((writer sample_conn)\<lparr>wbuf := encode sample_protocol ?r\<rparr>, conn sample_conn, None)"
    using bufio_Write_fits [of "encode sample_protocol ?r" "writer sample_conn" "conn sample_conn"]
    by (simp add: l w0)
  have b2: "bufio_Write ((writer sample_conn)\<lparr>wbuf := encode sample_protocol ?r\<rparr>) (conn sample_conn)
        [1, 2, 3]
      = ((writer sample_conn)\<lparr>wbuf := encode sample_protocol ?r @ [1, 2, 3]\<rparr>, conn sample_conn, None)"
    using bufio_Write_fits [of "[1, 2, 3]" "(writer sample_conn)\<lparr>wbuf := encode sample_protocol ?r\<rparr>"
        "conn sample_conn"]
    by (simp add: l w0 bufio_Available_def)
  have w: "WriteMessage sample_protocol (conn' sample_client) ?r (Some [1, 2, 3]) = Done (?c1, None)"
    by (simp add: cc WriteMessage_def Let_def u' b1 b2 sample_conn_facts wake_and_return_def
        wake_def w0)
  from reactor_route_reply [OF r, of sample_message "Some [1, 2, 3]"] h c u w
  have "reactor_route sample_protocol sample_client sample_message (Some [1, 2, 3])
     = Done (sample_client\<lparr>conn' := ?c1\<rparr>,
             [Handled sample_message [1, 2, 3], Replied ?r [1, 2, 3]], True) \<and>
     wire (writer ?c1) (conn ?c1)
       = wire (writer (conn' sample_client)) (conn (conn' sample_client))
           @ encode sample_protocol ?r @ [1, 2, 3]"
    by auto
  moreover have "wire (writer (conn' sample_client)) (conn (conn' sample_client)) = []"
    by (simp add: cc wire_def w0)
  ultimately show ?thesis
    using r w by simp
qed

end
